theory Spec2Isabelle
  imports Complex_Main "HOL-Library.Sublist" "HOL-Library.Log_Nat"
begin

section \<open>Text helpers of the subtitle bot\<close>

text \<open>
  Python text is modelled as \<^typ>\<open>string\<close>, one \<^typ>\<open>char\<close> per code point below 256.
  \<open>str.strip()\<close> and the regular expression class \<open>\s\<close> use the same whitespace
  test; below 256 it holds of the code points 9 to 13, 28 to 32, 133 and 160.
\<close>

definition is_space :: "char \<Rightarrow> bool" where
  "is_space c =
     (let n = (of_char c :: nat)
      in (9 \<le> n \<and> n \<le> 13) \<or> (28 \<le> n \<and> n \<le> 32) \<or> n = 133 \<or> n = 160)"

definition strip :: "string \<Rightarrow> string" where
  "strip s = rev (dropWhile is_space (rev (dropWhile is_space s)))"

subsection \<open>\<open>add_space_after_punctuation\<close>\<close>

text \<open>
  \<open>re.sub('\\m(?!\\s)', 'm ', text)\<close> for one mark \<open>m\<close>: scanning left to right, every
  \<open>m\<close> whose next character (in the scanned text) is not whitespace is replaced by
  \<open>m\<close> and a space. The lookahead also succeeds at the end of the text.
\<close>

fun sub_mark :: "char \<Rightarrow> string \<Rightarrow> string" where
  "sub_mark m [] = []"
| "sub_mark m [c] = (if c = m then [m, CHR '' ''] else [c])"
| "sub_mark m (c # d # cs) =
     (if c = m \<and> \<not> is_space d then m # CHR '' '' # sub_mark m (d # cs)
      else c # sub_mark m (d # cs))"

definition punctuation_marks :: "char list" where
  "punctuation_marks =
     [CHR '','', CHR ''.'', CHR ''!'', CHR ''?'', CHR '':'', CHR '';'', CHR '')'', CHR '']'', CHR ''}'']"

definition add_space_after_punctuation :: "string \<Rightarrow> string" where
  "add_space_after_punctuation text =
     (if text = [] then text else foldl (\<lambda>t m. sub_mark m t) text punctuation_marks)"

text \<open>\<open>spaced m t\<close>: every occurrence of \<open>m\<close> in \<open>t\<close> has a whitespace character after it.\<close>

fun spaced :: "char \<Rightarrow> string \<Rightarrow> bool" where
  "spaced m [] = True"
| "spaced m [c] = (c \<noteq> m)"
| "spaced m (c # d # cs) = ((c = m \<longrightarrow> is_space d) \<and> spaced m (d # cs))"

section \<open>Values, segments and the outside world\<close>

text \<open>
  A Python float is a finite double (given by the rational it denotes), an infinity or a
  NaN. The values that reach \<open>format_srt_time\<close> are floats, integers, text or \<open>None\<close>.
\<close>

datatype py_float = Fin rat | PInf | NInf | NaN

datatype py_value = PyFloat py_float | PyInt int | PyStr string | PyNone

text \<open>A segment as the speech recogniser returns it: a dictionary with these three keys.\<close>

record segment =
  seg_start :: py_value
  seg_end :: py_value
  seg_text :: string

datatype exc =
    ExternalError
  | TimeoutExpired
  | UnboundLocalError
  | ExtractionFailed
  | NoSpeech
  | NothingTranslated
  | SrtFailed
  | EmbedTimedOut
  | EmbedFailed
  | OutputTooLarge

text \<open>The status texts the bot sends, by stage (the source's texts are Hebrew).\<close>

datatype bot_msg =
    MsgLoadingModel
  | MsgExtracting
  | MsgRecognising
  | MsgTranslating nat nat
  | MsgCreatingSubs
  | MsgEmbedding
  | MsgSending
  | MsgVideo string
  | MsgDone
  | MsgError exc

datatype tr_outcome = TrRaises | TrFalsy | TrText string

datatype copy_outcome = CopyOk | CopyFails "string option"

datatype run_outcome = RunTimeout | RunRaises | RunExit int

text \<open>
  The exceptions of the bot API. \<open>BadRequest\<close> carries its message; \<open>TimedOut\<close> and
  \<open>NetworkError\<close> are the transient network failures.
\<close>

datatype api_error = BadRequest string | TimedOut | NetworkError | TelegramError | OtherError

text \<open>
  The state the program acts on: the files (path to content), the working directory, the
  directories that exist, and what an observer sees of the run: the pauses slept (seconds),
  the translation requests and the file lookups made, the messages delivered, the commands started. \<open>clock\<close>
  counts the calls made to the outside so far.
\<close>

record world =
  clock :: nat
  files :: "string \<rightharpoonup> string"
  cwd :: string
  dirs :: "string set"
  slept :: "rat list"
  requests :: nat
  fetches :: nat
  outbox :: "bot_msg list"
  commands :: "string list list"

text \<open>
  What the collaborators answer, as a function of the moment of the call (the clock): the
  translation service, the bot API, the speech recogniser, the transcoder and the
  operating system are outside the program and may fail at any call.
\<close>

record env =
  tmp_dir :: string
  time_at :: "nat \<Rightarrow> nat"
  translator_ctor :: "nat \<Rightarrow> bool"
  translate :: "nat \<Rightarrow> string \<Rightarrow> tr_outcome"
  bot_ok :: "nat \<Rightarrow> bool"
  load_model_ok :: "nat \<Rightarrow> bool"
  ffmpeg_extract :: "nat \<Rightarrow> bool \<times> string option"
  transcribe :: "nat \<Rightarrow> segment list option"
  open_write_ok :: "nat \<Rightarrow> bool"
  copyfile_outcome :: "nat \<Rightarrow> copy_outcome"
  run_ffmpeg :: "nat \<Rightarrow> string list \<Rightarrow> run_outcome \<times> string option"
  remove_ok :: "nat \<Rightarrow> bool"
  get_file :: "nat \<Rightarrow> api_error + nat option"
  download :: "nat \<Rightarrow> api_error + string option"

definition tick :: "world \<Rightarrow> world" where
  "tick w = w\<lparr>clock := Suc (clock w)\<rparr>"

definition sleep :: "rat \<Rightarrow> world \<Rightarrow> world" where
  "sleep d w = w\<lparr>slept := slept w @ [d]\<rparr>"

definition bot_call :: "env \<Rightarrow> bot_msg \<Rightarrow> world \<Rightarrow> (exc + unit) \<times> world" where
  "bot_call e m w =
     (if bot_ok e (clock w) then (Inr (), tick (w\<lparr>outbox := outbox w @ [m]\<rparr>))
      else (Inl ExternalError, tick w))"

section \<open>Translation of the segments\<close>

subsection \<open>\<open>translate_text_safe\<close>\<close>

text \<open>
  The loop \<open>for attempt in range(max_retries)\<close> from \<open>attempt\<close> on. A result with a
  non-empty text is returned; an empty result goes to the next attempt at once; an
  exception sleeps one second unless the attempt was the last. After the loop the text
  passed in is returned.
\<close>

function translate_attempts :: "env \<Rightarrow> string \<Rightarrow> nat \<Rightarrow> nat \<Rightarrow> world \<Rightarrow> string \<times> world" where
  "translate_attempts e text max_retries attempt w =
     (if attempt < max_retries then
        (let w1 = tick (w\<lparr>requests := Suc (requests w)\<rparr>)
         in case translate e (clock w) (strip text) of
              TrText r \<Rightarrow>
                if r \<noteq> [] then (r, w1)
                else translate_attempts e text max_retries (Suc attempt) w1
            | TrFalsy \<Rightarrow> translate_attempts e text max_retries (Suc attempt) w1
            | TrRaises \<Rightarrow>
                translate_attempts e text max_retries (Suc attempt)
                  (if attempt + 1 < max_retries then sleep 1 w1 else w1))
      else (text, w))"
  by pat_completeness auto
termination
  by (relation "measure (\<lambda>(e, text, max_retries, attempt, w). max_retries - attempt)") auto

declare translate_attempts.simps [simp del]

text \<open>
  \<open>Translator()\<close> is constructed outside the \<open>try\<close>: when it raises, the exception
  leaves \<open>translate_text_safe\<close>.
\<close>

definition translate_text_safe :: "env \<Rightarrow> string \<Rightarrow> nat \<Rightarrow> world \<Rightarrow> (exc + string) \<times> world" where
  "translate_text_safe e text max_retries w =
     (if text = [] \<or> strip text = [] then (Inr text, w)
      else if \<not> translator_ctor e (clock w) then (Inl ExternalError, tick w)
      else (let (r, w') = translate_attempts e text max_retries 0 (tick w) in (Inr r, w')))"

text \<open>An attempt failed: the request raised, or its result or the result's text was empty.\<close>

definition tr_failed :: "tr_outcome \<Rightarrow> bool" where
  "tr_failed r = (case r of TrRaises \<Rightarrow> True | TrFalsy \<Rightarrow> True | TrText t \<Rightarrow> t = [])"

subsection \<open>\<open>process_segments_safe\<close>\<close>

text \<open>
  The loop over \<open>enumerate(segments)\<close> from index \<open>i\<close> on, with the list built so far.
  A failing status update is ignored. A segment whose stripped text is empty is skipped
  (\<open>continue\<close>). An exception of the body appends the segment with its text unchanged.
\<close>

fun process_segments_from ::
  "env \<Rightarrow> nat \<Rightarrow> nat \<Rightarrow> segment list \<Rightarrow> segment list \<Rightarrow> world \<Rightarrow> segment list \<times> world" where
  "process_segments_from e total_segments i [] hebrew_segments w = (hebrew_segments, w)"
| "process_segments_from e total_segments i (seg # rest) hebrew_segments w =
     (let w1 = (if i mod 5 = 0 \<or> Suc i = total_segments then
                  snd (bot_call e (MsgTranslating (i + 1) total_segments) w)
                else w);
          original_text = strip (seg_text seg)
      in if original_text = [] then process_segments_from e total_segments (Suc i) rest hebrew_segments w1
         else
           (case translate_text_safe e original_text 3 w1 of
              (Inr translated_text, w2) \<Rightarrow>
                process_segments_from e total_segments (Suc i) rest
                  (hebrew_segments @
                    [\<lparr>seg_start = seg_start seg, seg_end = seg_end seg,
                      seg_text = add_space_after_punctuation translated_text\<rparr>]) w2
            | (Inl _, w2) \<Rightarrow>
                process_segments_from e total_segments (Suc i) rest
                  (hebrew_segments @
                    [\<lparr>seg_start = seg_start seg, seg_end = seg_end seg,
                      seg_text = seg_text seg\<rparr>]) w2))"

definition process_segments_safe :: "env \<Rightarrow> segment list \<Rightarrow> world \<Rightarrow> segment list \<times> world" where
  "process_segments_safe e segments w = process_segments_from e (length segments) 0 segments [] w"

section \<open>Subtitle timestamps\<close>

subsection \<open>Double-precision arithmetic\<close>

text \<open>
  Python computes on IEEE doubles. A finite double is modelled by the rational it denotes
  and each rounded operation by the exact result rounded to the nearest double, ties to
  even: 53 significant bits, least exponent \<open>-1074\<close>.
\<close>

fun bit_length :: "nat \<Rightarrow> nat" where
  "bit_length n = (if n = 0 then 0 else Suc (bit_length (n div 2)))"

declare bit_length.simps [simp del]

text \<open>\<open>ilog2 q\<close> is the integer \<open>k\<close> with \<open>2^k \<le> q < 2^(k+1)\<close>, for \<open>q > 0\<close>.\<close>

definition ilog2 :: "rat \<Rightarrow> int" where
  "ilog2 q =
     (if 1 \<le> q then int (bit_length (nat \<lfloor>q\<rfloor>)) - 1
      else - int (bit_length (nat (\<lceil>1 / q\<rceil> - 1))))"

definition round_half_even :: "rat \<Rightarrow> int" where
  "round_half_even q =
     (let f = \<lfloor>q\<rfloor>; d = q - of_int f
      in if d < 1 / 2 then f else if 1 / 2 < d then f + 1 else if even f then f else f + 1)"

definition fl64 :: "rat \<Rightarrow> rat" where
  "fl64 q =
     (if q = 0 then 0
      else (let e = max (ilog2 \<bar>q\<bar> - 52) (- 1074)
            in of_int (round_half_even (q / 2 powi e)) * 2 powi e))"

text \<open>A rational is a finite double when rounding leaves it unchanged and it is in range.\<close>

definition is_double :: "rat \<Rightarrow> bool" where
  "is_double q = (fl64 q = q \<and> \<bar>q\<bar> < 2 ^ 1024)"

definition truncate :: "rat \<Rightarrow> int" where
  "truncate q = (if 0 \<le> q then \<lfloor>q\<rfloor> else \<lceil>q\<rceil>)"

text \<open>C's \<open>fmod\<close>, which is exact: the result has the sign of \<open>x\<close>.\<close>

definition fmod :: "rat \<Rightarrow> rat \<Rightarrow> rat" where
  "fmod x y = x - y * of_int (truncate (x / y))"

text \<open>
  CPython's \<open>float_divmod\<close>, behind \<open>//\<close> and \<open>%\<close> on floats, for a finite non-zero
  divisor \<open>wx\<close> (the program divides by 3600, 60 and 1 only, so that no quotient
  overflows). The \<open>fmod\<close> of an infinity or a NaN is a NaN, and so is all that follows.
\<close>

definition float_div_mod :: "py_float \<Rightarrow> rat \<Rightarrow> py_float \<times> py_float" where
  "float_div_mod v wx =
     (case v of
        Fin vx \<Rightarrow>
          (let mod0 = fmod vx wx;
               div0 = fl64 (fl64 (vx - mod0) / wx);
               adjust = (mod0 \<noteq> 0 \<and> ((wx < 0) \<noteq> (mod0 < 0)));
               mod1 = (if adjust then fl64 (mod0 + wx) else mod0);
               div1 = (if adjust then fl64 (div0 - 1) else div0);
               floordiv = (if div1 \<noteq> 0 then
                            (let f = of_int \<lfloor>div1\<rfloor> in if 1 / 2 < div1 - f then f + 1 else f)
                           else 0)
           in (Fin floordiv, Fin mod1))
      | _ \<Rightarrow> (NaN, NaN))"

definition py_floordiv :: "py_float \<Rightarrow> rat \<Rightarrow> py_float" where
  "py_floordiv v wx = fst (float_div_mod v wx)"

definition py_mod :: "py_float \<Rightarrow> rat \<Rightarrow> py_float" where
  "py_mod v wx = snd (float_div_mod v wx)"

text \<open>\<open>x * 1000\<close> for a float \<open>x\<close> below 1 in magnitude, as the program uses it.\<close>

definition py_mul :: "py_float \<Rightarrow> rat \<Rightarrow> py_float" where
  "py_mul v k = (case v of Fin x \<Rightarrow> Fin (fl64 (x * k)) | _ \<Rightarrow> NaN)"

text \<open>\<open>int(x)\<close> truncates towards zero and raises on an infinity or a NaN.\<close>

definition py_int :: "py_float \<Rightarrow> int option" where
  "py_int v = (case v of Fin x \<Rightarrow> Some (truncate x) | _ \<Rightarrow> None)"

subsection \<open>\<open>float(...)\<close>\<close>

definition is_digit :: "char \<Rightarrow> bool" where
  "is_digit c = (c \<in> set ''0123456789'')"

definition lower :: "char \<Rightarrow> char" where
  "lower c = (let n = (of_char c :: nat) in if 65 \<le> n \<and> n \<le> 90 then char_of (n + 32) else c)"

text \<open>
  Underscores may stand between two digits only; they are removed before parsing.
  \<open>prev\<close> is the character before (initially the NUL character).
\<close>

fun drop_underscores :: "char \<Rightarrow> string \<Rightarrow> string option" where
  "drop_underscores prev [] = (if prev = CHR ''_'' then None else Some [])"
| "drop_underscores prev (c # cs) =
     (if c = CHR ''_'' then (if is_digit prev then drop_underscores c cs else None)
      else if prev = CHR ''_'' \<and> \<not> is_digit c then None
      else map_option ((#) c) (drop_underscores c cs))"

definition digits_value :: "string \<Rightarrow> nat" where
  "digits_value ds = foldl (\<lambda>n c. 10 * n + (of_char c - 48)) 0 ds"

text \<open>
  An unsigned decimal literal: digits, an optional point and digits (at least one digit in
  all), an optional exponent \<open>e\<close>, sign, digits. \<open>None\<close> when the text is not one.
\<close>

definition parse_decimal :: "string \<Rightarrow> rat option" where
  "parse_decimal s =
     (let ip = takeWhile is_digit s; r1 = dropWhile is_digit s;
          has_point = (r1 \<noteq> [] \<and> hd r1 = CHR ''.'');
          fp = (if has_point then takeWhile is_digit (tl r1) else []);
          r2 = (if has_point then dropWhile is_digit (tl r1) else r1);
          mantissa = of_nat (digits_value (ip @ fp)) / 10 ^ length fp
      in if ip = [] \<and> fp = [] then None
         else if r2 = [] then Some mantissa
         else if hd r2 = CHR ''e'' \<or> hd r2 = CHR ''E'' then
           (let r3 = tl r2;
                negative = (r3 \<noteq> [] \<and> hd r3 = CHR ''-'');
                r4 = (if r3 \<noteq> [] \<and> (hd r3 = CHR ''-'' \<or> hd r3 = CHR ''+'') then tl r3 else r3)
            in if r4 = [] \<or> \<not> list_all is_digit r4 then None
               else if negative then Some (mantissa / 10 ^ digits_value r4)
               else Some (mantissa * 10 ^ digits_value r4))
         else None)"

definition to_double :: "rat \<Rightarrow> py_float" where
  "to_double q =
     (let r = fl64 q in if 2 ^ 1024 \<le> r then PInf else if r \<le> - (2 ^ 1024) then NInf else Fin r)"

definition neg_float :: "py_float \<Rightarrow> py_float" where
  "neg_float v = (case v of Fin x \<Rightarrow> Fin (- x) | PInf \<Rightarrow> NInf | NInf \<Rightarrow> PInf | NaN \<Rightarrow> NaN)"

definition parse_unsigned_float :: "string \<Rightarrow> py_float option" where
  "parse_unsigned_float s =
     (if map lower s = ''inf'' \<or> map lower s = ''infinity'' then Some PInf
      else if map lower s = ''nan'' then Some NaN
      else map_option to_double (parse_decimal s))"

text \<open>\<open>float(s)\<close> for a text: \<open>None\<close> stands for the \<open>ValueError\<close>.\<close>

definition float_of_string :: "string \<Rightarrow> py_float option" where
  "float_of_string s =
     (case drop_underscores (CHR 0x00) (strip s) of
        None \<Rightarrow> None
      | Some t \<Rightarrow>
          (if t \<noteq> [] \<and> hd t = CHR ''-'' then map_option neg_float (parse_unsigned_float (tl t))
           else if t \<noteq> [] \<and> hd t = CHR ''+'' then parse_unsigned_float (tl t)
           else parse_unsigned_float t))"

text \<open>
  \<open>float(v)\<close>: \<open>None\<close> stands for the exception (\<open>OverflowError\<close> for an integer too
  large, \<open>ValueError\<close> for a malformed text, \<open>TypeError\<close> for \<open>None\<close>).
\<close>

definition py_float_of :: "py_value \<Rightarrow> py_float option" where
  "py_float_of v =
     (case v of
        PyFloat f \<Rightarrow> Some f
      | PyInt n \<Rightarrow> (case to_double (of_int n) of Fin r \<Rightarrow> Some (Fin r) | _ \<Rightarrow> None)
      | PyStr s \<Rightarrow> float_of_string s
      | PyNone \<Rightarrow> None)"

subsection \<open>Formatting\<close>

fun digits :: "nat \<Rightarrow> string" where
  "digits n = (if n < 10 then [''0123456789'' ! n] else digits (n div 10) @ [''0123456789'' ! (n mod 10)])"

declare digits.simps [simp del]

text \<open>The format \<open>{n:0Wd}\<close>: at least \<open>W\<close> characters, zeros added after the sign.\<close>

definition format_0d :: "nat \<Rightarrow> int \<Rightarrow> string" where
  "format_0d width n =
     (let sign = (if n < 0 then ''-'' else []); ds = digits (nat \<bar>n\<bar>)
      in sign @ replicate (width - length sign - length ds) CHR ''0'' @ ds)"

subsection \<open>\<open>format_srt_time\<close>\<close>

definition format_srt_time :: "py_value \<Rightarrow> string" where
  "format_srt_time seconds =
     (case py_float_of seconds of
        None \<Rightarrow> ''00:00:00,000''
      | Some seconds \<Rightarrow>
          (case py_int (py_floordiv seconds 3600) of
             None \<Rightarrow> ''00:00:00,000''
           | Some hours \<Rightarrow>
               (case py_int (py_floordiv (py_mod seconds 3600) 60) of
                  None \<Rightarrow> ''00:00:00,000''
                | Some minutes \<Rightarrow>
                    (let secs = py_mod seconds 60
                     in case py_int (py_mul (py_mod secs 1) 1000) of
                          None \<Rightarrow> ''00:00:00,000''
                        | Some millisecs \<Rightarrow>
                            (case py_int secs of
                               None \<Rightarrow> ''00:00:00,000''
                             | Some secs \<Rightarrow>
                                 format_0d 2 hours @ '':'' @ format_0d 2 minutes @ '':''
                                 @ format_0d 2 secs @ '','' @ format_0d 3 millisecs)))))"

section \<open>The subtitle file\<close>

definition newline :: char where
  "newline = CHR 0x0A"

definition path_join :: "string \<Rightarrow> string \<Rightarrow> string" where
  "path_join a b =
     (if b \<noteq> [] \<and> hd b = CHR ''/'' then b
      else if a = [] \<or> last a = CHR ''/'' then a @ b
      else a @ ''/'' @ b)"

definition basename :: "string \<Rightarrow> string" where
  "basename p = rev (takeWhile (\<lambda>c. c \<noteq> CHR ''/'') (rev p))"

subsection \<open>Removing files\<close>

definition path_exists :: "world \<Rightarrow> string \<Rightarrow> bool" where
  "path_exists w p = (files w p \<noteq> None)"

definition getsize :: "world \<Rightarrow> string \<Rightarrow> nat option" where
  "getsize w p = map_option length (files w p)"

text \<open>\<open>os.remove\<close>: an \<open>OSError\<close> when the file is missing or the system refuses.\<close>

definition os_remove :: "env \<Rightarrow> string \<Rightarrow> world \<Rightarrow> bool \<times> world" where
  "os_remove e p w =
     (if files w p \<noteq> None \<and> remove_ok e (clock w)
      then (True, tick (w\<lparr>files := (files w)(p := None)\<rparr>))
      else (False, tick w))"

text \<open>
  \<open>safe_file_operation(os.remove, p)\<close>, its only use: the loop over three attempts from
  \<open>attempt\<close> on, half a second of sleep after a failure that is not the last.
\<close>

function safe_file_operation :: "env \<Rightarrow> string \<Rightarrow> nat \<Rightarrow> world \<Rightarrow> world" where
  "safe_file_operation e p attempt w =
     (if attempt < 3 then
        (case os_remove e p w of
           (True, w1) \<Rightarrow> w1
         | (False, w1) \<Rightarrow>
             if attempt < 3 - 1 then safe_file_operation e p (Suc attempt) (sleep (1 / 2) w1)
             else w1)
      else w)"
  by pat_completeness auto
termination
  by (relation "measure (\<lambda>(e, p, attempt, w). 3 - attempt)") auto

declare safe_file_operation.simps [simp del]

text \<open>\<open>cleanup_files(*file_paths)\<close>: an argument may be \<open>None\<close> or empty.\<close>

fun cleanup_files :: "env \<Rightarrow> string option list \<Rightarrow> world \<Rightarrow> world" where
  "cleanup_files e [] w = w"
| "cleanup_files e (file_path # rest) w =
     (case file_path of
        None \<Rightarrow> cleanup_files e rest w
      | Some p \<Rightarrow>
          if p \<noteq> [] \<and> path_exists w p then cleanup_files e rest (safe_file_operation e p 0 w)
          else cleanup_files e rest w)"

subsection \<open>\<open>create_srt_file_safe\<close>\<close>

text \<open>The loop over the segments from \<open>subtitle_index\<close> on: what it writes to the file.\<close>

fun srt_entries :: "nat \<Rightarrow> segment list \<Rightarrow> string" where
  "srt_entries subtitle_index [] = []"
| "srt_entries subtitle_index (seg # rest) =
     (if seg_text seg = [] then srt_entries subtitle_index rest
      else digits subtitle_index @ [newline]
           @ format_srt_time (seg_start seg) @ '' --> '' @ format_srt_time (seg_end seg) @ [newline]
           @ seg_text seg @ [newline, newline]
           @ srt_entries (subtitle_index + 1) rest)"

definition create_srt_file_safe :: "env \<Rightarrow> segment list \<Rightarrow> string \<Rightarrow> world \<Rightarrow> (exc + string) \<times> world" where
  "create_srt_file_safe e segments user_id w =
     (let srt_path = path_join (tmp_dir e)
                       (''subs_'' @ user_id @ ''_'' @ digits (time_at e (clock w)) @ ''.srt'');
          w0 = tick w
      in if open_write_ok e (clock w0)
         then (Inr srt_path, tick (w0\<lparr>files := (files w0)(srt_path \<mapsto> srt_entries 1 segments)\<rparr>))
         else (Inl SrtFailed, cleanup_files e [Some srt_path] (tick w0)))"

text \<open>
  The format of the specification: an entry is four lines, each ended by a newline: the
  index, \<open>start --> end\<close>, the text and an empty line; the file is the entries of the
  segments with a non-empty text, numbered from 1.
\<close>

definition srt_block_spec :: "nat \<Rightarrow> segment \<Rightarrow> string" where
  "srt_block_spec n seg =
     concat (map (\<lambda>line. line @ [newline])
       [digits n,
        format_srt_time (seg_start seg) @ '' --> '' @ format_srt_time (seg_end seg),
        seg_text seg,
        []])"

definition srt_file_spec :: "segment list \<Rightarrow> string" where
  "srt_file_spec segments =
     (let emitted = filter (\<lambda>seg. seg_text seg \<noteq> []) segments
      in concat (map (\<lambda>(n, seg). srt_block_spec n seg) (zip [1 ..< Suc (length emitted)] emitted)))"

section \<open>Fetching the video: \<open>download_file_safe\<close>\<close>

datatype dl_message =
    DeclaredTooBig
  | ApiTooBig
  | NotFoundOrExpired
  | InvalidFileId
  | Downloaded
  | GaveUp

text \<open>
  The \<open>except\<close> clauses of the loop body, in the source's order; \<open>None\<close> means that
  the body ends without returning. A \<open>BadRequest\<close> returns for three messages (its text
  lower-cased; only ASCII letters matter for the texts searched). A network error sleeps
  \<open>2 ** attempt\<close> seconds unless the attempt is the last.
\<close>

definition handle_download_error ::
  "api_error \<Rightarrow> nat \<Rightarrow> nat \<Rightarrow> world \<Rightarrow> (bool \<times> dl_message) option \<times> world" where
  "handle_download_error err max_retries attempt w =
     (case err of
        BadRequest msg \<Rightarrow>
          (let error_msg = map lower msg
           in if sublist ''file is too big'' error_msg then (Some (False, ApiTooBig), w)
              else if sublist ''file not found'' error_msg then (Some (False, NotFoundOrExpired), w)
              else if sublist ''invalid file id'' error_msg then (Some (False, InvalidFileId), w)
              else (None, w))
      | TimedOut \<Rightarrow> (None, if attempt + 1 < max_retries then sleep (2 ^ attempt) w else w)
      | NetworkError \<Rightarrow> (None, if attempt + 1 < max_retries then sleep (2 ^ attempt) w else w)
      | TelegramError \<Rightarrow> (None, w)
      | OtherError \<Rightarrow> (None, w))"

text \<open>The body of the loop for one attempt.\<close>

definition download_attempt ::
  "env \<Rightarrow> string \<Rightarrow> nat \<Rightarrow> nat \<Rightarrow> world \<Rightarrow> (bool \<times> dl_message) option \<times> world" where
  "download_attempt e file_path max_retries attempt w =
     (let w1 = tick (w\<lparr>fetches := Suc (fetches w)\<rparr>)
      in case get_file e (clock w) of
           Inl err \<Rightarrow> handle_download_error err max_retries attempt w1
         | Inr file_size \<Rightarrow>
             if (case file_size of None \<Rightarrow> False | Some n \<Rightarrow> n \<noteq> 0 \<and> 20 * 1024 * 1024 < n)
             then (Some (False, DeclaredTooBig), w1)
             else
               (case download e (clock w1) of
                  Inl err \<Rightarrow> handle_download_error err max_retries attempt (tick w1)
                | Inr written \<Rightarrow>
                    (let w2 = tick (case written of
                                      None \<Rightarrow> w1
                                    | Some content \<Rightarrow> w1\<lparr>files := (files w1)(file_path \<mapsto> content)\<rparr>)
                     in if (case getsize w2 file_path of None \<Rightarrow> False | Some n \<Rightarrow> 100 < n)
                        then (Some (True, Downloaded), w2)
                        else (None, w2))))"

text \<open>
  The loop \<open>for attempt in range(max_retries)\<close> from \<open>attempt\<close> on: every body that
  does not return is followed by the next attempt.
\<close>

function download_attempts :: "env \<Rightarrow> string \<Rightarrow> nat \<Rightarrow> nat \<Rightarrow> world \<Rightarrow> (bool \<times> dl_message) \<times> world" where
  "download_attempts e file_path max_retries attempt w =
     (if attempt < max_retries then
        (case download_attempt e file_path max_retries attempt w of
           (Some r, w') \<Rightarrow> (r, w')
         | (None, w') \<Rightarrow> download_attempts e file_path max_retries (Suc attempt) w')
      else ((False, GaveUp), w))"
  by pat_completeness auto
termination
  by (relation "measure (\<lambda>(e, file_path, max_retries, attempt, w). max_retries - attempt)") auto

declare download_attempts.simps [simp del]

definition download_file_safe :: "env \<Rightarrow> string \<Rightarrow> nat \<Rightarrow> world \<Rightarrow> (bool \<times> dl_message) \<times> world" where
  "download_file_safe e file_path max_retries w = download_attempts e file_path max_retries 0 w"

text \<open>
  Vocabulary for the retry policy. \<open>fatal_reason\<close> is the failure that a
  \<open>BadRequest\<close> message ends the call with, if any: the three texts are searched in the
  lower-cased message, in this order. \<open>acceptable_size\<close> holds of a declared size that
  passes the size test (no size, or at most 20 MB). \<open>after_get_file\<close> is the world once
  the lookup of an attempt has answered, \<open>after_download\<close> the world once the transfer
  has returned too, having written \<open>written\<close> at the path. \<open>attempt_error e w err w1\<close>:
  in an attempt started in \<open>w\<close> the lookup raises \<open>err\<close>, or the lookup announces an
  acceptable size and the transfer raises \<open>err\<close>; \<open>w1\<close> is the world when the error
  is raised.
\<close>

definition fatal_reason :: "string \<Rightarrow> dl_message option" where
  "fatal_reason msg =
     (if sublist ''file is too big'' (map lower msg) then Some ApiTooBig
      else if sublist ''file not found'' (map lower msg) then Some NotFoundOrExpired
      else if sublist ''invalid file id'' (map lower msg) then Some InvalidFileId
      else None)"

definition acceptable_size :: "nat option \<Rightarrow> bool" where
  "acceptable_size declared = (case declared of None \<Rightarrow> True | Some n \<Rightarrow> n \<le> 20 * 1024 * 1024)"

definition after_get_file :: "world \<Rightarrow> world" where
  "after_get_file w = tick (w\<lparr>fetches := Suc (fetches w)\<rparr>)"

definition after_download :: "string \<Rightarrow> string option \<Rightarrow> world \<Rightarrow> world" where
  "after_download file_path written w =
     tick (case written of
             None \<Rightarrow> after_get_file w
           | Some content \<Rightarrow> (after_get_file w)\<lparr>files := (files w)(file_path \<mapsto> content)\<rparr>)"

definition attempt_error :: "env \<Rightarrow> world \<Rightarrow> api_error \<Rightarrow> world \<Rightarrow> bool" where
  "attempt_error e w err w1 =
     ((get_file e (clock w) = Inl err \<and> w1 = after_get_file w)
      \<or> (\<exists>declared. get_file e (clock w) = Inr declared \<and> acceptable_size declared
            \<and> download e (Suc (clock w)) = Inl err \<and> w1 = tick (after_get_file w)))"

section \<open>The pipeline\<close>

subsection \<open>\<open>extract_audio_safe\<close>\<close>

text \<open>
  The transcoder's run either raises or not, and may leave a file at the target path in
  both cases.
\<close>

definition extract_audio_safe :: "env \<Rightarrow> string \<Rightarrow> string \<Rightarrow> world \<Rightarrow> (exc + string) \<times> world" where
  "extract_audio_safe e video_path user_id w =
     (let audio_path = path_join (tmp_dir e)
                         (''audio_'' @ user_id @ ''_'' @ digits (time_at e (clock w)) @ ''.wav'');
          w0 = cleanup_files e [Some audio_path] (tick w);
          (ran, written) = ffmpeg_extract e (clock w0);
          w1 = tick (case written of
                       None \<Rightarrow> w0
                     | Some content \<Rightarrow> w0\<lparr>files := (files w0)(audio_path \<mapsto> content)\<rparr>)
      in if ran \<and> (case getsize w1 audio_path of None \<Rightarrow> False | Some n \<Rightarrow> 1000 < n)
         then (Inr audio_path, w1)
         else (Inl ExtractionFailed, cleanup_files e [Some audio_path] w1))"

subsection \<open>\<open>embed_subtitles_safe\<close>\<close>

definition COLOR_CODES :: "string \<rightharpoonup> string" where
  "COLOR_CODES =
     [''white'' \<mapsto> ''&H00FFFFFF&'', ''yellow'' \<mapsto> ''&H0000FFFF&'',
      ''black'' \<mapsto> ''&H00000000&'', ''tomato'' \<mapsto> ''&H000066FF&'']"

definition str_int :: "int \<Rightarrow> string" where
  "str_int n = (if n < 0 then ''-'' @ digits (nat (- n)) else digits (nat n))"

text \<open>The argument list \<open>cmd\<close> handed to the transcoder.\<close>

definition ffmpeg_command :: "string \<Rightarrow> string \<Rightarrow> string \<Rightarrow> int \<Rightarrow> string \<Rightarrow> string list" where
  "ffmpeg_command simple_video_name simple_srt_name output_name font_size color_code =
     [''ffmpeg'', ''-i'', simple_video_name,
      ''-vf'', ''subtitles='' @ simple_srt_name @ '':force_style='' @ [CHR 0x27]
               @ ''Fontsize='' @ str_int font_size @ '',PrimaryColour='' @ color_code
               @ '',OutlineColour=&H00000000&,Bold=1'' @ [CHR 0x27],
      ''-c:a'', ''copy'', ''-y'', output_name]"

definition copyfile :: "env \<Rightarrow> string \<Rightarrow> string \<Rightarrow> world \<Rightarrow> bool \<times> world" where
  "copyfile e src dst w =
     (case files w src of
        None \<Rightarrow> (False, tick w)
      | Some content \<Rightarrow>
          (case copyfile_outcome e (clock w) of
             CopyOk \<Rightarrow> (True, tick (w\<lparr>files := (files w)(dst \<mapsto> content)\<rparr>))
           | CopyFails None \<Rightarrow> (False, tick w)
           | CopyFails (Some partial) \<Rightarrow> (False, tick (w\<lparr>files := (files w)(dst \<mapsto> partial)\<rparr>))))"

text \<open>\<open>os.chdir\<close> raises when the directory does not exist.\<close>

definition chdir :: "string \<Rightarrow> world \<Rightarrow> bool \<times> world" where
  "chdir d w = (if d \<in> dirs w then (True, w\<lparr>cwd := d\<rparr>) else (False, w))"

text \<open>
  The body of the \<open>try\<close>, in three parts, last part first. An exception is returned
  together with the value of \<open>original_dir\<close> at that point, \<open>None\<close> while the
  variable is not yet assigned.

  After the transcoder has returned: back to the original directory, then the checks of
  the exit status and of the output file.
\<close>

definition embed_check :: "string \<Rightarrow> string \<Rightarrow> int \<Rightarrow> world \<Rightarrow> ((exc \<times> string option) + string) \<times> world" where
  "embed_check original_dir output_path returncode w =
     (case chdir original_dir w of
        (False, w) \<Rightarrow> (Inl (ExternalError, Some original_dir), w)
      | (True, w) \<Rightarrow>
          if returncode \<noteq> 0 then (Inl (EmbedFailed, Some original_dir), w)
          else if (case getsize w output_path of None \<Rightarrow> False | Some n \<Rightarrow> 1000 < n)
          then (Inr output_path, w)
          else (Inl (EmbedFailed, Some original_dir), w))"

text \<open>
  In the work directory: the command is built and run. The transcoder writes its output,
  if any, under the name given, relative to the working directory.
\<close>

definition embed_run ::
  "env \<Rightarrow> string \<Rightarrow> string \<Rightarrow> string \<Rightarrow> string \<Rightarrow> int \<Rightarrow> string \<Rightarrow> world
   \<Rightarrow> ((exc \<times> string option) + string) \<times> world" where
  "embed_run e original_dir simple_video_path simple_srt_path output_path font_size color_code w =
     (let simple_video_name = basename simple_video_path;
          simple_srt_name = basename simple_srt_path;
          output_name = basename output_path;
          cmd = ffmpeg_command simple_video_name simple_srt_name output_name font_size color_code;
          (result, written) = run_ffmpeg e (clock w) cmd;
          w = tick (w\<lparr>commands := commands w @ [cmd],
                       files := (case written of
                                   None \<Rightarrow> files w
                                 | Some content \<Rightarrow> (files w)(path_join (cwd w) output_name \<mapsto> content))\<rparr>)
      in case result of
           RunTimeout \<Rightarrow> (Inl (TimeoutExpired, Some original_dir), w)
         | RunRaises \<Rightarrow> (Inl (ExternalError, Some original_dir), w)
         | RunExit returncode \<Rightarrow> embed_check original_dir output_path returncode w)"

text \<open>The start of the body: the two copies and the change of directory.\<close>

definition embed_try ::
  "env \<Rightarrow> string \<Rightarrow> string \<Rightarrow> string \<Rightarrow> string \<Rightarrow> string \<Rightarrow> int \<Rightarrow> string \<Rightarrow> world
   \<Rightarrow> ((exc \<times> string option) + string) \<times> world" where
  "embed_try e video_path srt_path simple_video_path simple_srt_path output_path font_size font_color w =
     (case copyfile e video_path simple_video_path w of
        (False, w) \<Rightarrow> (Inl (ExternalError, None), w)
      | (True, w) \<Rightarrow>
     (case copyfile e srt_path simple_srt_path w of
        (False, w) \<Rightarrow> (Inl (ExternalError, None), w)
      | (True, w) \<Rightarrow>
     (let color_code = (case COLOR_CODES font_color of None \<Rightarrow> ''&H00FFFFFF&'' | Some c \<Rightarrow> c);
          original_dir = cwd w
      in case chdir (tmp_dir e) w of
           (False, w) \<Rightarrow> (Inl (ExternalError, Some original_dir), w)
         | (True, w) \<Rightarrow>
             embed_run e original_dir simple_video_path simple_srt_path output_path
               font_size color_code w)))"

text \<open>
  The function with its two handlers. Both start with \<open>os.chdir(original_dir)\<close>: when
  the variable is unassigned this raises \<open>UnboundLocalError\<close>, and when the directory is
  gone the error of \<open>chdir\<close>; either leaves the handler before \<open>cleanup_files\<close>.
\<close>

definition embed_subtitles_safe ::
  "env \<Rightarrow> string \<Rightarrow> string \<Rightarrow> string \<Rightarrow> int \<Rightarrow> string \<Rightarrow> world \<Rightarrow> (exc + string) \<times> world" where
  "embed_subtitles_safe e video_path srt_path user_id font_size font_color w =
     (let timestamp = time_at e (clock w);
          work_dir = tmp_dir e;
          simple_video_path = path_join work_dir (''v_'' @ user_id @ ''_'' @ digits timestamp @ ''.mp4'');
          simple_srt_path = path_join work_dir (''s_'' @ user_id @ ''_'' @ digits timestamp @ ''.srt'');
          output_path = path_join work_dir (''o_'' @ user_id @ ''_'' @ digits timestamp @ ''.mp4'')
      in case embed_try e video_path srt_path simple_video_path simple_srt_path output_path
                font_size font_color (tick w) of
           (Inr out, w) \<Rightarrow> (Inr out, w)
         | (Inl (ex, None), w) \<Rightarrow> (Inl UnboundLocalError, w)
         | (Inl (ex, Some original_dir), w) \<Rightarrow>
             (case chdir original_dir w of
                (False, w) \<Rightarrow> (Inl ExternalError, w)
              | (True, w) \<Rightarrow>
                  (if ex = TimeoutExpired then Inl EmbedTimedOut else Inl EmbedFailed,
                   cleanup_files e [Some simple_video_path, Some simple_srt_path, Some output_path] w)))"

subsection \<open>\<open>process_video_complete\<close>\<close>

definition MAX_FILE_SIZE :: nat where
  "MAX_FILE_SIZE = 200 * 1024 * 1024"

definition load_model :: "env \<Rightarrow> world \<Rightarrow> (exc + unit) \<times> world" where
  "load_model e w = (if load_model_ok e (clock w) then Inr () else Inl ExternalError, tick w)"

text \<open>
  The body of the \<open>try\<close>: the result, then the values of \<open>audio_path\<close>, \<open>srt_path\<close>
  and \<open>output_path\<close> when the body is left (\<open>None\<close> as initialised), then the world.
  A status update that fails is an exception here.
\<close>

definition process_video_try ::
  "env \<Rightarrow> string \<Rightarrow> string \<Rightarrow> int \<Rightarrow> string \<Rightarrow> world
   \<Rightarrow> (exc + unit) \<times> string option \<times> string option \<times> string option \<times> world" where
  "process_video_try e video_path user_id font_size font_color w =
     (case bot_call e MsgLoadingModel w of
        (Inl ex, w) \<Rightarrow> (Inl ex, None, None, None, w) | (Inr _, w) \<Rightarrow>
     (case load_model e w of
        (Inl ex, w) \<Rightarrow> (Inl ex, None, None, None, w) | (Inr _, w) \<Rightarrow>
     (case bot_call e MsgExtracting w of
        (Inl ex, w) \<Rightarrow> (Inl ex, None, None, None, w) | (Inr _, w) \<Rightarrow>
     (case extract_audio_safe e video_path user_id w of
        (Inl ex, w) \<Rightarrow> (Inl ex, None, None, None, w) | (Inr audio_path, w) \<Rightarrow>
     (case bot_call e MsgRecognising w of
        (Inl ex, w) \<Rightarrow> (Inl ex, Some audio_path, None, None, w) | (Inr _, w) \<Rightarrow>
     (case (transcribe e (clock w), tick w) of
        (None, w) \<Rightarrow> (Inl ExternalError, Some audio_path, None, None, w)
      | (Some [], w) \<Rightarrow> (Inl NoSpeech, Some audio_path, None, None, w)
      | (Some segments, w) \<Rightarrow>
     (case process_segments_safe e segments w of
        ([], w) \<Rightarrow> (Inl NothingTranslated, Some audio_path, None, None, w)
      | (hebrew_segments, w) \<Rightarrow>
     (case bot_call e MsgCreatingSubs w of
        (Inl ex, w) \<Rightarrow> (Inl ex, Some audio_path, None, None, w) | (Inr _, w) \<Rightarrow>
     (case create_srt_file_safe e hebrew_segments user_id w of
        (Inl ex, w) \<Rightarrow> (Inl ex, Some audio_path, None, None, w) | (Inr srt_path, w) \<Rightarrow>
     (case bot_call e MsgEmbedding w of
        (Inl ex, w) \<Rightarrow> (Inl ex, Some audio_path, Some srt_path, None, w) | (Inr _, w) \<Rightarrow>
     (case embed_subtitles_safe e video_path srt_path user_id font_size font_color w of
        (Inl ex, w) \<Rightarrow> (Inl ex, Some audio_path, Some srt_path, None, w)
      | (Inr output_path, w) \<Rightarrow>
     (case bot_call e MsgSending w of
        (Inl ex, w) \<Rightarrow> (Inl ex, Some audio_path, Some srt_path, Some output_path, w)
      | (Inr _, w) \<Rightarrow>
     (case getsize w output_path of
        None \<Rightarrow> (Inl ExternalError, Some audio_path, Some srt_path, Some output_path, w)
      | Some output_size \<Rightarrow>
          if MAX_FILE_SIZE < output_size
          then (Inl OutputTooLarge, Some audio_path, Some srt_path, Some output_path, w)
          else
     (case bot_call e (MsgVideo output_path) w of
        (Inl ex, w) \<Rightarrow> (Inl ex, Some audio_path, Some srt_path, Some output_path, w)
      | (Inr _, w) \<Rightarrow>
     (case bot_call e MsgDone w of
        (Inl ex, w) \<Rightarrow> (Inl ex, Some audio_path, Some srt_path, Some output_path, w)
      | (Inr _, w) \<Rightarrow>
          (Inr (), Some audio_path, Some srt_path, Some output_path, w))))))))))))))))"

text \<open>
  The \<open>except\<close> clause reports the error (a failure to report is ignored); the
  \<open>finally\<close> clause removes the three files named by the local variables.
\<close>

definition process_video_complete :: "env \<Rightarrow> string \<Rightarrow> string \<Rightarrow> int \<Rightarrow> string \<Rightarrow> world \<Rightarrow> world" where
  "process_video_complete e video_path user_id font_size font_color w =
     (case process_video_try e video_path user_id font_size font_color w of
        (r, audio_path, srt_path, output_path, w1) \<Rightarrow>
          (let w2 = (case r of Inl ex \<Rightarrow> snd (bot_call e (MsgError ex) w1) | Inr _ \<Rightarrow> w1)
           in cleanup_files e [audio_path, srt_path, output_path] w2))"

section \<open>Example runs\<close>

text \<open>
  A run in which every collaborator works: the recogniser returns the two segments
  \<open>(0.0, 2.0, "Hello there")\<close> and \<open>(2.0, 5.0, "How are you?")\<close>, the transcoder writes
  files of 2000 bytes. The variants differ in one collaborator.
\<close>

definition two_segments :: "segment list" where
  "two_segments =
     [\<lparr>seg_start = PyFloat (Fin 0), seg_end = PyFloat (Fin 2), seg_text = ''Hello there''\<rparr>,
      \<lparr>seg_start = PyFloat (Fin 2), seg_end = PyFloat (Fin 5), seg_text = ''How are you?''\<rparr>]"

definition blank_segment :: segment where
  "blank_segment = \<lparr>seg_start = PyFloat (Fin 0), seg_end = PyFloat (Fin 1), seg_text = ''  ''\<rparr>"

definition studio_env :: env where
  "studio_env =
     \<lparr>tmp_dir = ''/tmp'',
      time_at = (\<lambda>_. 1700000000),
      translator_ctor = (\<lambda>_. True),
      translate = (\<lambda>_ _. TrText ''shalom''),
      bot_ok = (\<lambda>_. True),
      load_model_ok = (\<lambda>_. True),
      ffmpeg_extract = (\<lambda>_. (True, Some (replicate 2000 CHR ''a''))),
      transcribe = (\<lambda>_. Some two_segments),
      open_write_ok = (\<lambda>_. True),
      copyfile_outcome = (\<lambda>_. CopyOk),
      run_ffmpeg = (\<lambda>_ _. (RunExit 0, Some (replicate 2000 CHR ''o''))),
      remove_ok = (\<lambda>_. True),
      get_file = (\<lambda>_. Inr (Some 5000)),
      download = (\<lambda>_. Inr (Some (replicate 5000 CHR ''v'')))\<rparr>"

definition offline_translator_env :: env where
  "offline_translator_env = studio_env\<lparr>translate := (\<lambda>_ _. TrRaises)\<rparr>"

definition failing_transcoder_env :: env where
  "failing_transcoder_env = studio_env\<lparr>run_ffmpeg := (\<lambda>_ _. (RunExit 1, None))\<rparr>"

definition unreachable_env :: "api_error \<Rightarrow> env" where
  "unreachable_env err = studio_env\<lparr>get_file := (\<lambda>_. Inl err)\<rparr>"

definition oversized_env :: env where
  "oversized_env = studio_env\<lparr>get_file := (\<lambda>_. Inr (Some (21 * 1024 * 1024)))\<rparr>"

definition hiccup_env :: env where
  "hiccup_env = studio_env\<lparr>get_file := (\<lambda>t. if t = 0 then Inl TelegramError else Inr (Some 5000))\<rparr>"

text \<open>
  The transfer fails once, after the first lookup; and a transfer that leaves a file of
  100 bytes.
\<close>

definition flaky_transfer_env :: "api_error \<Rightarrow> env" where
  "flaky_transfer_env err =
     studio_env\<lparr>download := (\<lambda>t. if t = 1 then Inl err else Inr (Some (replicate 5000 CHR ''v'')))\<rparr>"

definition stub_transfer_env :: env where
  "stub_transfer_env = studio_env\<lparr>download := (\<lambda>_. Inr (Some (replicate 100 CHR ''v'')))\<rparr>"

definition input_video :: string where
  "input_video = ''/tmp/input_7_1700000000.mp4''"

definition fresh_world :: world where
  "fresh_world =
     \<lparr>clock = 0,
      files = [input_video \<mapsto> replicate 5000 CHR ''v''],
      cwd = ''/home/bot'',
      dirs = {''/home/bot'', ''/tmp''},
      slept = [],
      requests = 0,
      fetches = 0,
      outbox = [],
      commands = []\<rparr>"

text \<open>The same world once the subtitle file has been written.\<close>

definition staged_world :: world where
  "staged_world =
     fresh_world\<lparr>files := (files fresh_world)(''/tmp/subs_7_1700000000.srt'' \<mapsto> srt_entries 1 two_segments)\<rparr>"

section \<open>Properties of the text helpers\<close>

lemma is_space_blank [simp]: "is_space CHR '' ''"
  by (simp add: is_space_def)

lemma marks_not_space: "m \<in> set punctuation_marks \<Longrightarrow> \<not> is_space m"
  by (auto simp: punctuation_marks_def is_space_def)

lemma marks_distinct: "distinct punctuation_marks"
  by (simp add: punctuation_marks_def)

lemma sub_mark_Nil_iff [simp]: "sub_mark m t = [] \<longleftrightarrow> t = []"
  by (induction m t rule: sub_mark.induct) auto

lemma sub_mark_hd: "sub_mark m (c # cs) = c # tl (sub_mark m (c # cs))"
  by (cases cs) auto

lemma spaced_sub_mark: "\<not> is_space m \<Longrightarrow> spaced m (sub_mark m t)"
proof (induction m t rule: sub_mark.induct)
  case (3 m c d cs)
  obtain r where r: "sub_mark m (d # cs) = d # r"
    using sub_mark_hd by blast
  with 3 show ?case by auto
qed auto

lemma sub_mark_id: "spaced m t \<Longrightarrow> sub_mark m t = t"
  by (induction m t rule: sub_mark.induct) auto

lemma spaced_sub_mark_other:
  "m \<noteq> m' \<Longrightarrow> \<not> is_space m \<Longrightarrow> spaced m t \<Longrightarrow> spaced m (sub_mark m' t)"
proof (induction m' t rule: sub_mark.induct)
  case (3 m' c d cs)
  obtain r where r: "sub_mark m' (d # cs) = d # r"
    using sub_mark_hd by blast
  with 3 show ?case by auto
qed auto

lemma foldl_sub_mark_spaced_keep:
  "m \<notin> set ms \<Longrightarrow> \<not> is_space m \<Longrightarrow> spaced m t \<Longrightarrow> spaced m (foldl (\<lambda>t m. sub_mark m t) t ms)"
  by (induction ms arbitrary: t) (auto simp: spaced_sub_mark_other)

lemma foldl_sub_mark_spaced:
  "distinct ms \<Longrightarrow> \<forall>m \<in> set ms. \<not> is_space m \<Longrightarrow> m \<in> set ms \<Longrightarrow>
   spaced m (foldl (\<lambda>t m. sub_mark m t) t ms)"
proof (induction ms arbitrary: t)
  case Nil
  then show ?case by simp
next
  case (Cons a ms)
  show ?case
  proof (cases "m = a")
    case True
    with Cons.prems show ?thesis
      by (simp add: foldl_sub_mark_spaced_keep spaced_sub_mark)
  next
    case False
    with Cons show ?thesis by simp
  qed
qed

lemma foldl_sub_mark_id:
  "\<forall>m \<in> set ms. spaced m t \<Longrightarrow> foldl (\<lambda>t m. sub_mark m t) t ms = t"
  by (induction ms) (auto simp: sub_mark_id)

lemma foldl_sub_mark_Nil_iff [simp]: "foldl (\<lambda>t m. sub_mark m t) t ms = [] \<longleftrightarrow> t = []"
  by (induction ms arbitrary: t) auto

lemma add_space_spaced:
  "m \<in> set punctuation_marks \<Longrightarrow> spaced m (add_space_after_punctuation t)"
  by (simp add: add_space_after_punctuation_def foldl_sub_mark_spaced marks_distinct
      marks_not_space)

lemma add_space_fixed:
  "\<forall>m \<in> set punctuation_marks. spaced m t \<Longrightarrow> add_space_after_punctuation t = t"
  by (simp add: add_space_after_punctuation_def foldl_sub_mark_id)

text \<open>
  Claim C4. The punctuation-spacing operation is idempotent: for every text, applying
  \<open>add_space_after_punctuation\<close> twice gives the same text as applying it once.
\<close>

theorem add_space_after_punctuation_idempotent:
  "add_space_after_punctuation (add_space_after_punctuation x) = add_space_after_punctuation x"
  using add_space_fixed [of "add_space_after_punctuation x"] add_space_spaced [of _ x]
  by blast

lemma sub_mark_append:
  "ys \<noteq> [] \<Longrightarrow> \<not> is_space (hd ys) \<Longrightarrow> sub_mark m (xs @ ys) = sub_mark m xs @ sub_mark m ys"
proof (induction m xs rule: sub_mark.induct)
  case (1 m)
  then show ?case by simp
next
  case (2 m c)
  then show ?case by (cases ys) auto
next
  case (3 m c d cs)
  then show ?case by simp
qed

lemma sub_mark_final_other:
  "m' \<noteq> m \<Longrightarrow> \<not> is_space m \<Longrightarrow> sub_mark m' (xs @ [m]) = sub_mark m' xs @ [m]"
  using sub_mark_append [of "[m]" m' xs] by simp

lemma sub_mark_final_same:
  "\<not> is_space m \<Longrightarrow> sub_mark m (xs @ [m]) = sub_mark m xs @ [m, CHR '' '']"
  using sub_mark_append [of "[m]" m xs] by simp

lemma sub_mark_spaced_tail:
  "m' \<noteq> m \<Longrightarrow> m' \<noteq> CHR '' '' \<Longrightarrow> \<not> is_space m \<Longrightarrow>
   sub_mark m' (xs @ [m, CHR '' '']) = sub_mark m' xs @ [m, CHR '' '']"
  using sub_mark_append [of "[m, CHR '' '']" m' xs] by simp

lemma foldl_sub_mark_spaced_tail:
  "m \<notin> set ms \<Longrightarrow> CHR '' '' \<notin> set ms \<Longrightarrow> \<not> is_space m \<Longrightarrow>
   foldl (\<lambda>t m. sub_mark m t) (xs @ [m, CHR '' '']) ms
   = foldl (\<lambda>t m. sub_mark m t) xs ms @ [m, CHR '' '']"
  by (induction ms arbitrary: xs) (auto simp: sub_mark_spaced_tail)

lemma foldl_sub_mark_final:
  "distinct ms \<Longrightarrow> m \<in> set ms \<Longrightarrow> CHR '' '' \<notin> set ms \<Longrightarrow> \<not> is_space m \<Longrightarrow>
   foldl (\<lambda>t m. sub_mark m t) (xs @ [m]) ms
   = foldl (\<lambda>t m. sub_mark m t) xs ms @ [m, CHR '' '']"
proof (induction ms arbitrary: xs)
  case Nil
  then show ?case by simp
next
  case (Cons a ms)
  show ?case
  proof (cases "a = m")
    case True
    with Cons.prems show ?thesis
      by (simp add: sub_mark_final_same foldl_sub_mark_spaced_tail)
  next
    case False
    with Cons show ?thesis
      by (simp add: sub_mark_final_other)
  qed
qed

lemma foldl_sub_mark_Nil: "foldl (\<lambda>t m. sub_mark m t) [] ms = []"
  by (induction ms) auto

lemma add_space_foldl: "add_space_after_punctuation t = foldl (\<lambda>t m. sub_mark m t) t punctuation_marks"
  by (simp add: add_space_after_punctuation_def foldl_sub_mark_Nil)

text \<open>
  Claim C10. A text that ends in one of the handled punctuation characters gets a space
  appended after that final character, which is kept: the end of the text counts as "not
  followed by whitespace". The result is the result for the text without its final
  character, followed by that character and one space.
\<close>

theorem add_space_after_final_mark:
  assumes "x \<noteq> []" and "last x \<in> set punctuation_marks"
  shows "add_space_after_punctuation x = add_space_after_punctuation (butlast x) @ [last x, CHR '' '']"
proof -
  have x: "x = butlast x @ [last x]" using assms(1) by simp
  have b: "CHR '' '' \<notin> set punctuation_marks" by (simp add: punctuation_marks_def)
  have "foldl (\<lambda>t m. sub_mark m t) (butlast x @ [last x]) punctuation_marks
        = foldl (\<lambda>t m. sub_mark m t) (butlast x) punctuation_marks @ [last x, CHR '' '']"
    using assms(2) b by (intro foldl_sub_mark_final marks_distinct marks_not_space)
  then show ?thesis
    unfolding add_space_foldl using x by simp
qed

theorem add_space_after_final_mark_witness:
  "''How are you?'' \<noteq> [] \<and> last ''How are you?'' \<in> set punctuation_marks
   \<and> add_space_after_punctuation (butlast ''How are you?'') = ''How are you''
   \<and> add_space_after_punctuation ''How are you?'' = ''How are you? ''"
  using add_space_after_final_mark [of "''How are you?''"]
  by (simp add: add_space_after_punctuation_def punctuation_marks_def is_space_def)

section \<open>Properties of the translation pass\<close>

lemma tick_simps [simp]:
  "clock (tick w) = Suc (clock w)" "slept (tick w) = slept w" "requests (tick w) = requests w"
  "files (tick w) = files w" "cwd (tick w) = cwd w" "dirs (tick w) = dirs w"
  "outbox (tick w) = outbox w" "commands (tick w) = commands w" "fetches (tick w) = fetches w"
  by (simp_all add: tick_def)

lemma sleep_simps [simp]:
  "clock (sleep d w) = clock w" "slept (sleep d w) = slept w @ [d]" "requests (sleep d w) = requests w"
  "files (sleep d w) = files w" "cwd (sleep d w) = cwd w" "dirs (sleep d w) = dirs w"
  "outbox (sleep d w) = outbox w" "commands (sleep d w) = commands w" "fetches (sleep d w) = fetches w"
  by (simp_all add: sleep_def)

lemma translate_attempts_failed:
  "\<forall>t s. tr_failed (translate e t s) \<Longrightarrow> fst (translate_attempts e tx n a w) = tx"
proof (induction e tx n a w rule: translate_attempts.induct)
  case (1 e tx max_retries attempt w)
  from "1.prems" have f: "tr_failed (translate e (clock w) (strip tx))" by blast
  show ?case
    using 1 f
    by (subst translate_attempts.simps) (auto simp: tr_failed_def Let_def split: tr_outcome.splits)
qed

lemma translate_attempts_requests:
  "requests (snd (translate_attempts e tx n a w)) \<le> requests w + (n - a)"
proof (induction e tx n a w rule: translate_attempts.induct)
  case (1 e tx max_retries attempt w)
  show ?case
  proof (cases "attempt < max_retries")
    case False
    then show ?thesis by (subst translate_attempts.simps) simp
  next
    case True
    let ?w1 = "tick (w\<lparr>requests := Suc (requests w)\<rparr>)"
    have r: "requests ?w1 + (max_retries - Suc attempt) = requests w + (max_retries - attempt)"
      using True by simp
    show ?thesis
      using 1 [OF True refl] True r
      by (subst translate_attempts.simps)
         (auto simp: Let_def split: tr_outcome.splits)
  qed
qed

lemma translate_attempts_slept:
  "\<exists>k \<le> n - Suc a. slept (snd (translate_attempts e tx n a w)) = slept w @ replicate k 1"
proof (induction e tx n a w rule: translate_attempts.induct)
  case (1 e tx max_retries attempt w)
  show ?case
  proof (cases "attempt < max_retries")
    case False
    then show ?thesis by (subst translate_attempts.simps) simp
  next
    case True
    let ?w1 = "tick (w\<lparr>requests := Suc (requests w)\<rparr>)"
    note ih = 1 [OF True refl]
    show ?thesis
    proof (cases "translate e (clock w) (strip tx)")
      case TrRaises
      from ih(1) [OF TrRaises] obtain k where k: "k \<le> max_retries - Suc (Suc attempt)"
        "slept (snd (translate_attempts e tx max_retries (Suc attempt)
            (if attempt + 1 < max_retries then sleep 1 ?w1 else ?w1))) =
         slept (if attempt + 1 < max_retries then sleep 1 ?w1 else ?w1) @ replicate k 1"
        by blast
      show ?thesis
      proof (cases "attempt + 1 < max_retries")
        case True
        with k have "Suc k \<le> max_retries - Suc attempt"
          "slept (snd (translate_attempts e tx max_retries attempt w)) = slept w @ replicate (Suc k) 1"
          using TrRaises \<open>attempt < max_retries\<close>
          by (auto simp: translate_attempts.simps [of e tx max_retries attempt w] Let_def
              simp flip: replicate_append_same)
        then show ?thesis by blast
      next
        case False
        with k have "k \<le> max_retries - Suc attempt"
          "slept (snd (translate_attempts e tx max_retries attempt w)) = slept w @ replicate k 1"
          using TrRaises \<open>attempt < max_retries\<close>
          by (auto simp: translate_attempts.simps [of e tx max_retries attempt w] Let_def)
        then show ?thesis by blast
      qed
    next
      case TrFalsy
      from ih(2) [OF TrFalsy] obtain k where k: "k \<le> max_retries - Suc (Suc attempt)"
        "slept (snd (translate_attempts e tx max_retries (Suc attempt) ?w1)) = slept ?w1 @ replicate k 1"
        by blast
      then have "k \<le> max_retries - Suc attempt"
          "slept (snd (translate_attempts e tx max_retries attempt w)) = slept w @ replicate k 1"
        using TrFalsy True
        by (auto simp: translate_attempts.simps [of e tx max_retries attempt w] Let_def)
      then show ?thesis by blast
    next
      case (TrText r)
      show ?thesis
      proof (cases "r = []")
        case True
        from ih(3) [OF TrText] True obtain k where k: "k \<le> max_retries - Suc (Suc attempt)"
          "slept (snd (translate_attempts e tx max_retries (Suc attempt) ?w1)) = slept ?w1 @ replicate k 1"
          by blast
        then have "k \<le> max_retries - Suc attempt"
          "slept (snd (translate_attempts e tx max_retries attempt w)) = slept w @ replicate k 1"
          using TrText True \<open>attempt < max_retries\<close>
          by (auto simp: translate_attempts.simps [of e tx max_retries attempt w] Let_def)
        then show ?thesis by blast
      next
        case False
        then have "slept (snd (translate_attempts e tx max_retries attempt w)) = slept w @ replicate 0 1"
          using TrText \<open>attempt < max_retries\<close>
          by (auto simp: translate_attempts.simps [of e tx max_retries attempt w] Let_def)
        then show ?thesis by blast
      qed
    qed
  qed
qed

lemma translate_attempts_raises:
  "\<forall>t s. translate e t s = TrRaises \<Longrightarrow>
   requests (snd (translate_attempts e tx n a w)) = requests w + (n - a) \<and>
   slept (snd (translate_attempts e tx n a w)) = slept w @ replicate (n - Suc a) 1"
proof (induction e tx n a w rule: translate_attempts.induct)
  case (1 e tx max_retries attempt w)
  show ?case
  proof (cases "attempt < max_retries")
    case False
    then show ?thesis by (subst (1 2) translate_attempts.simps) simp
  next
    case True
    let ?w1 = "tick (w\<lparr>requests := Suc (requests w)\<rparr>)"
    have tr: "translate e (clock w) (strip tx) = TrRaises" using "1.prems" by blast
    note ih = 1(1) [OF True refl tr "1.prems"]
    show ?thesis
    proof (cases "attempt + 1 < max_retries")
      case True
      then obtain m where m: "max_retries = Suc (Suc attempt) + m"
        by (auto simp: less_iff_Suc_add)
      have rep: "replicate m (1::rat) @ [1] = 1 # replicate m 1"
        by (simp add: replicate_append_same)
      have "attempt < max_retries" "attempt + 1 < max_retries" using m by simp_all
      with ih tr show ?thesis
        unfolding translate_attempts.simps [of e tx max_retries attempt w]
        by (simp add: Let_def) (simp add: m rep)
    next
      case False
      with ih tr \<open>attempt < max_retries\<close> show ?thesis
        by (simp add: translate_attempts.simps [of e tx max_retries attempt w] Let_def)
    qed
  qed
qed

lemma psf_times:
  "map (\<lambda>s. (seg_start s, seg_end s)) (fst (process_segments_from e t i segs acc w)) =
   map (\<lambda>s. (seg_start s, seg_end s)) acc @ map (\<lambda>s. (seg_start s, seg_end s)) (filter (\<lambda>s. strip (seg_text s) \<noteq> []) segs)"
  by (induction segs arbitrary: i acc w) (auto simp: Let_def split: prod.splits sum.splits)

lemma psf_length:
  "length (fst (process_segments_from e t i segs acc w)) =
   length acc + length (filter (\<lambda>s. strip (seg_text s) \<noteq> []) segs)"
  by (induction segs arbitrary: i acc w) (auto simp: Let_def split: prod.splits sum.splits)


lemma strip_Nil [simp]: "strip [] = []"
  by (simp add: strip_def)

lemma translate_text_safe_failed:
  assumes "\<forall>t. translator_ctor e t" and "\<forall>t s. tr_failed (translate e t s)"
  shows "fst (translate_text_safe e tx n w) = Inr tx"
  using assms translate_attempts_failed [of e tx n 0 "tick w"]
  by (auto simp: translate_text_safe_def split: prod.splits)

lemma translate_text_safe_requests:
  "requests (snd (translate_text_safe e tx n w)) \<le> requests w + n"
  using translate_attempts_requests [of e tx n 0 "tick w"]
  by (auto simp: translate_text_safe_def split: prod.splits)

lemma translate_text_safe_slept:
  "\<exists>k \<le> n - 1. slept (snd (translate_text_safe e tx n w)) = slept w @ replicate k 1"
proof -
  have z: "\<exists>k \<le> n - 1. slept w = slept w @ replicate k (1::rat)"
    by (rule exI [of _ 0]) simp
  show ?thesis
    using translate_attempts_slept [of n 0 e tx "tick w"] z
    by (auto simp: translate_text_safe_def split: prod.splits)
qed

lemma translate_text_safe_raises:
  assumes "\<forall>t. translator_ctor e t" and "\<forall>t s. translate e t s = TrRaises" and "strip tx \<noteq> []"
  shows "requests (snd (translate_text_safe e tx n w)) = requests w + n"
    and "slept (snd (translate_text_safe e tx n w)) = slept w @ replicate (n - 1) 1"
  using assms translate_attempts_raises [of e tx n 0 "tick w"]
  by (auto simp: translate_text_safe_def split: prod.splits)

lemma psf_texts_failed:
  assumes "\<forall>t. translator_ctor e t" and "\<forall>t s. tr_failed (translate e t s)"
  shows "map seg_text (fst (process_segments_from e t i segs acc w)) =
     map seg_text acc @
     map (\<lambda>s. add_space_after_punctuation (strip (seg_text s))) (filter (\<lambda>s. strip (seg_text s) \<noteq> []) segs)"
proof (induction segs arbitrary: i acc w)
  case Nil
  then show ?case by simp
next
  case (Cons seg rest)
  show ?case
    using translate_text_safe_failed [OF assms] Cons
    by (auto simp: Let_def split: prod.splits sum.splits) (metis fst_conv sum.inject(2) Inl_Inr_False)+
qed

lemma offline_ctor: "translator_ctor offline_translator_env t"
  by (simp add: offline_translator_env_def studio_env_def)

lemma offline_translate: "translate offline_translator_env t s = TrRaises"
  by (simp add: offline_translator_env_def studio_env_def)

lemma strip_examples:
  "strip ''Hello there'' = ''Hello there''" "strip ''How are you?'' = ''How are you?''"
  "strip ''  '' = []"
  by (simp_all add: strip_def is_space_def)

lemma add_space_examples:
  "add_space_after_punctuation ''Hello there'' = ''Hello there''"
  "add_space_after_punctuation ''How are you?'' = ''How are you? ''"
  by (simp_all add: add_space_after_punctuation_def punctuation_marks_def is_space_def)

text \<open>
  Claim C1 as stated fails: a segment whose text is blank is dropped, so the output is
  shorter than the input.
\<close>

theorem process_segments_safe_drops_blank:
  "length (fst (process_segments_safe studio_env [blank_segment] fresh_world)) \<noteq> length [blank_segment]"
  by (simp add: process_segments_safe_def blank_segment_def strip_examples Let_def)

text \<open>
  Claim C1, as amended. The translation pass drops exactly the segments whose stripped text
  is empty: whatever the translation service does, the list returned by
  \<open>process_segments_safe\<close> has as many segments as the input has segments with a
  non-blank text.
\<close>

theorem process_segments_safe_length:
  "length (fst (process_segments_safe e segments w)) =
   length (filter (\<lambda>s. strip (seg_text s) \<noteq> []) segments)"
  by (simp add: process_segments_safe_def psf_length)

text \<open>
  Claim C9. Translation changes only the text: the segments emitted by
  \<open>process_segments_safe\<close> are, in the same order, the input segments with a non-blank
  text, each with the start and end timestamps of its input segment.
\<close>

theorem process_segments_safe_keeps_times:
  "map (\<lambda>s. (seg_start s, seg_end s)) (fst (process_segments_safe e segments w)) =
   map (\<lambda>s. (seg_start s, seg_end s)) (filter (\<lambda>s. strip (seg_text s) \<noteq> []) segments)"
  by (simp add: process_segments_safe_def psf_times)

text \<open>
  Claim C7 as stated fails: when every request fails, the text emitted for the segment
  "How are you?" is not the original text, it has a space appended.
\<close>

theorem translation_fallback_is_respaced:
  "map seg_text (fst (process_segments_safe offline_translator_env two_segments fresh_world))
   \<noteq> map seg_text two_segments"
proof -
  have "map seg_text (fst (process_segments_safe offline_translator_env two_segments fresh_world))
        = [''Hello there'', ''How are you? '']"
    using psf_texts_failed [of offline_translator_env "length two_segments" 0 two_segments "[]" fresh_world]
    by (simp add: process_segments_safe_def offline_ctor offline_translate tr_failed_def
        two_segments_def strip_examples add_space_examples)
  then show ?thesis by (simp add: two_segments_def)
qed

section \<open>Properties of the subtitle file\<close>

lemma srt_entries_spec:
  "srt_entries n segs =
     concat (map (\<lambda>(i, seg). srt_block_spec i seg)
       (zip [n ..< n + length (filter (\<lambda>seg. seg_text seg \<noteq> []) segs)]
            (filter (\<lambda>seg. seg_text seg \<noteq> []) segs)))"
proof (induction segs arbitrary: n)
  case Nil
  then show ?case by simp
next
  case (Cons seg rest)
  show ?case
  proof (cases "seg_text seg = []")
    case True
    then show ?thesis using Cons [of n] by simp
  next
    case False
    let ?em = "filter (\<lambda>seg. seg_text seg \<noteq> []) rest"
    have u: "[n ..< n + length (seg # ?em)] = n # [n + 1 ..< n + 1 + length ?em]"
      by (simp add: upt_conv_Cons del: upt_Suc)
    have f: "filter (\<lambda>seg. seg_text seg \<noteq> []) (seg # rest) = seg # ?em"
      using False by simp
    have b: "srt_entries n (seg # rest) = srt_block_spec n seg @ srt_entries (n + 1) rest"
      using False by (simp add: srt_block_spec_def)
    show ?thesis
      unfolding b f u Cons [of "n + 1"] by simp
  qed
qed

lemma srt_entries_file_spec: "srt_entries (Suc 0) segs = srt_file_spec segs"
  by (simp add: srt_entries_spec srt_file_spec_def Let_def)

text \<open>
  Claim C8. When \<open>create_srt_file_safe\<close> succeeds, the file it wrote is the sequence of
  entries of the segments with a non-empty text, in order, numbered 1, 2, 3, ... without
  gaps; a segment with an empty text is skipped and takes no number; each entry is four
  lines: the index, \<open>start --> end\<close>, the text, and an empty line.
\<close>

theorem create_srt_file_safe_format:
  assumes "create_srt_file_safe e segments user_id w = (Inr srt_path, w')"
  shows "files w' srt_path = Some (srt_file_spec segments)"
  using assms
  by (auto simp: create_srt_file_safe_def Let_def srt_entries_file_spec split: if_splits)

lemma digits_ts: "digits 1700000000 = ''1700000000''"
  by (simp add: digits.simps)

lemma fmt0: "format_srt_time (PyFloat (Fin 0)) = ''00:00:00,000''"
  by code_simp
lemma fmt2: "format_srt_time (PyFloat (Fin 2)) = ''00:00:02,000''"
  by code_simp
lemma fmt5: "format_srt_time (PyFloat (Fin 5)) = ''00:00:05,000''"
  by code_simp

theorem create_srt_file_safe_format_witness:
  "fst (create_srt_file_safe studio_env two_segments ''7'' fresh_world) = Inr ''/tmp/subs_7_1700000000.srt''
   \<and> files (snd (create_srt_file_safe studio_env two_segments ''7'' fresh_world)) ''/tmp/subs_7_1700000000.srt''
       = Some (''1'' @ [newline] @ ''00:00:00,000 --> 00:00:02,000'' @ [newline] @ ''Hello there'' @ [newline, newline]
             @ ''2'' @ [newline] @ ''00:00:02,000 --> 00:00:05,000'' @ [newline] @ ''How are you?'' @ [newline, newline])"
proof -
  have r: "fst (create_srt_file_safe studio_env two_segments ''7'' fresh_world) = Inr ''/tmp/subs_7_1700000000.srt''"
    by (simp add: create_srt_file_safe_def studio_env_def fresh_world_def tick_def path_join_def digits_ts Let_def)
  then have "create_srt_file_safe studio_env two_segments ''7'' fresh_world =
       (Inr ''/tmp/subs_7_1700000000.srt'', snd (create_srt_file_safe studio_env two_segments ''7'' fresh_world))"
    by (metis prod.collapse)
  from create_srt_file_safe_format [OF this] r show ?thesis
    by (simp add: srt_file_spec_def srt_block_spec_def two_segments_def fmt0 fmt2 fmt5 digits.simps upt_conv_Cons)
qed

section \<open>Properties of the download\<close>

lemma handle_download_error_fetches:
  "fetches (snd (handle_download_error err n a w)) = fetches w"
  by (simp add: handle_download_error_def Let_def split: api_error.splits)

lemma download_attempt_fetches:
  "fetches (snd (download_attempt e p n a w)) = Suc (fetches w)"
  by (simp add: download_attempt_def handle_download_error_fetches Let_def
      split: sum.splits option.splits)

lemma download_attempts_fetches:
  "fetches (snd (download_attempts e p n a w)) \<le> fetches w + (n - a)"
proof (induction e p n a w rule: download_attempts.induct)
  case (1 e file_path max_retries attempt w)
  show ?case
  proof (cases "attempt < max_retries")
    case False
    then show ?thesis by (simp add: download_attempts.simps [of e file_path max_retries attempt])
  next
    case True
    obtain r w' where b: "download_attempt e file_path max_retries attempt w = (r, w')"
      by (cases "download_attempt e file_path max_retries attempt w")
    have f: "fetches w' = Suc (fetches w)"
      using download_attempt_fetches [of e file_path max_retries attempt w] b by simp
    show ?thesis
    proof (cases r)
      case None
      with 1 [OF True b [symmetric]] True b f show ?thesis
        by (simp add: download_attempts.simps [of e file_path max_retries attempt w])
    next
      case (Some res)
      with True b f show ?thesis
        by (simp add: download_attempts.simps [of e file_path max_retries attempt w])
    qed
  qed
qed

lemma download_attempts_network:
  assumes "\<forall>t. get_file e t = Inl TimedOut \<or> get_file e t = Inl NetworkError"
  shows "fst (download_attempts e p n a w) = (False, GaveUp)
       \<and> fetches (snd (download_attempts e p n a w)) = fetches w + (n - a)
       \<and> slept (snd (download_attempts e p n a w)) = slept w @ map (\<lambda>k. 2 ^ k) [a ..< n - 1]"
  using assms
proof (induction e p n a w rule: download_attempts.induct)
  case (1 e file_path max_retries attempt w)
  show ?case
  proof (cases "attempt < max_retries")
    case False
    then show ?thesis by (simp add: download_attempts.simps [of e file_path max_retries attempt])
  next
    case True
    let ?w1 = "tick (w\<lparr>fetches := Suc (fetches w)\<rparr>)"
    let ?w2 = "if attempt + 1 < max_retries then sleep (2 ^ attempt) ?w1 else ?w1"
    have b: "download_attempt e file_path max_retries attempt w = (None, ?w2)"
      using "1.prems" [rule_format, of "clock w"]
      by (auto simp: download_attempt_def handle_download_error_def Let_def)
    note ih = "1.IH" [OF True b [symmetric] refl "1.prems"]
    have u: "attempt + 1 < max_retries \<Longrightarrow> [attempt ..< max_retries - 1] = attempt # [Suc attempt ..< max_retries - 1]"
      by (simp add: upt_conv_Cons)
    show ?thesis
      using ih True b u
      by (simp add: download_attempts.simps [of e file_path max_retries attempt w])
  qed
qed

lemma download_attempts_other:
  assumes "\<forall>t. get_file e t = Inl TelegramError \<or> get_file e t = Inl OtherError"
  shows "fst (download_attempts e p n a w) = (False, GaveUp)
       \<and> fetches (snd (download_attempts e p n a w)) = fetches w + (n - a)
       \<and> slept (snd (download_attempts e p n a w)) = slept w"
  using assms
proof (induction e p n a w rule: download_attempts.induct)
  case (1 e file_path max_retries attempt w)
  show ?case
  proof (cases "attempt < max_retries")
    case False
    then show ?thesis by (simp add: download_attempts.simps [of e file_path max_retries attempt])
  next
    case True
    let ?w1 = "tick (w\<lparr>fetches := Suc (fetches w)\<rparr>)"
    have b: "download_attempt e file_path max_retries attempt w = (None, ?w1)"
      using "1.prems" [rule_format, of "clock w"]
      by (auto simp: download_attempt_def handle_download_error_def Let_def)
    note ih = "1.IH" [OF True b [symmetric] refl "1.prems"]
    show ?thesis
      using ih True b
      by (simp add: download_attempts.simps [of e file_path max_retries attempt w])
  qed
qed

lemma download_first_attempt:
  "0 < n \<Longrightarrow> download_attempt e p n 0 w = (Some r, w') \<Longrightarrow> download_file_safe e p n w = (r, w')"
  by (simp add: download_file_safe_def download_attempts.simps [of e p n 0 w])

lemma handle_fatal:
  "fatal_reason msg = Some r \<Longrightarrow> handle_download_error (BadRequest msg) n a w = (Some (False, r), w)"
  by (auto simp: fatal_reason_def handle_download_error_def Let_def split: if_splits)

lemma handle_other_bad:
  "fatal_reason msg = None \<Longrightarrow> handle_download_error (BadRequest msg) n a w = (None, w)"
  by (auto simp: fatal_reason_def handle_download_error_def Let_def split: if_splits)

lemma handle_network:
  "err = TimedOut \<or> err = NetworkError \<Longrightarrow>
   handle_download_error err n a w = (None, if a + 1 < n then sleep (2 ^ a) w else w)"
  by (auto simp: handle_download_error_def)

lemma handle_other:
  "err = TelegramError \<or> err = OtherError \<Longrightarrow> handle_download_error err n a w = (None, w)"
  by (auto simp: handle_download_error_def)

lemma attempt_error_body:
  "attempt_error e w err w1 \<Longrightarrow> download_attempt e p n a w = handle_download_error err n a w1"
  by (auto simp: attempt_error_def download_attempt_def after_get_file_def acceptable_size_def Let_def
      split: option.splits)

lemma attempt_download_body:
  "get_file e (clock w) = Inr declared \<Longrightarrow> acceptable_size declared \<Longrightarrow>
   download e (Suc (clock w)) = Inr written \<Longrightarrow>
   download_attempt e p n a w =
     (if (case getsize (after_download p written w) p of None \<Rightarrow> False | Some k \<Rightarrow> 100 < k)
      then (Some (True, Downloaded), after_download p written w)
      else (None, after_download p written w))"
  by (auto simp: download_attempt_def after_download_def after_get_file_def acceptable_size_def Let_def
      tick_def getsize_def split: option.splits)


lemma after_worlds:
  "fetches (after_get_file w) = fetches w + 1" "slept (after_get_file w) = slept w"
  "clock (after_get_file w) = clock w + 1"
  "fetches (tick (after_get_file w)) = fetches w + 1" "slept (tick (after_get_file w)) = slept w"
  "fetches (after_download p written w) = fetches w + 1" "slept (after_download p written w) = slept w"
  "clock (after_download p written w) = clock w + 2"
  "files (after_download p written w) = (case written of None \<Rightarrow> files w | Some c \<Rightarrow> (files w)(p \<mapsto> c))"
  by (simp_all add: after_get_file_def after_download_def split: option.splits)

text \<open>
  Claim C6, as amended. \<open>download_file_safe\<close> is the loop of attempts from attempt 0
  and makes at most \<open>max_retries\<close> lookups; when the attempts are used up it returns
  the fixed failure reason. At every attempt that is made, whatever happened before:
  a declared size over 20 MB ends the call with that failure; an error raised by the
  lookup or by the transfer ends the call when it is a \<open>BadRequest\<close> whose message says
  "file is too big", "file not found" or "invalid file id", with the matching failure, no
  sleep and no further attempt; any other \<open>BadRequest\<close>, another Telegram error and any
  other exception are followed by the next attempt at once; a timeout or network error
  is followed by a sleep of \<open>2 ** attempt\<close> seconds, unless the attempt is the last, and
  by the next attempt; a transfer that returns ends the call with success when the file
  has more than 100 bytes and is otherwise followed by the next attempt at once. Each
  attempt counts one lookup and by itself adds no sleep. So, when every lookup fails with a
  network error, the call gives up after \<open>max_retries\<close> lookups, having slept 1, 2, 4, ...
  seconds between them; when every lookup fails with another Telegram error or another
  exception, it gives up after \<open>max_retries\<close> lookups without sleeping.
\<close>

theorem download_file_safe_retry_policy:
  "download_file_safe e p n w = download_attempts e p n 0 w
   \<and> fetches (snd (download_attempts e p n a w)) \<le> fetches w + (n - a)
   \<and> (n \<le> a \<longrightarrow> download_attempts e p n a w = ((False, GaveUp), w))
   \<and> (a < n \<and> get_file e (clock w) = Inr (Some declared) \<and> 20 * 1024 * 1024 < declared \<longrightarrow>
        download_attempts e p n a w = ((False, DeclaredTooBig), after_get_file w))
   \<and> (a < n \<and> attempt_error e w (BadRequest msg) w1 \<and> fatal_reason msg = Some r \<longrightarrow>
        download_attempts e p n a w = ((False, r), w1))
   \<and> (a < n \<and> attempt_error e w (BadRequest msg) w1 \<and> fatal_reason msg = None \<longrightarrow>
        download_attempts e p n a w = download_attempts e p n (Suc a) w1)
   \<and> (a < n \<and> attempt_error e w err w1 \<and> (err = TimedOut \<or> err = NetworkError) \<longrightarrow>
        download_attempts e p n a w =
          download_attempts e p n (Suc a) (if a + 1 < n then sleep (2 ^ a) w1 else w1))
   \<and> (a < n \<and> attempt_error e w err w1 \<and> (err = TelegramError \<or> err = OtherError) \<longrightarrow>
        download_attempts e p n a w = download_attempts e p n (Suc a) w1)
   \<and> (a < n \<and> get_file e (clock w) = Inr announced \<and> acceptable_size announced
        \<and> download e (Suc (clock w)) = Inr written \<longrightarrow>
        download_attempts e p n a w =
          (if (case getsize (after_download p written w) p of None \<Rightarrow> False | Some k \<Rightarrow> 100 < k)
           then ((True, Downloaded), after_download p written w)
           else download_attempts e p n (Suc a) (after_download p written w)))
   \<and> fetches (after_get_file w) = fetches w + 1 \<and> slept (after_get_file w) = slept w
   \<and> fetches (tick (after_get_file w)) = fetches w + 1 \<and> slept (tick (after_get_file w)) = slept w
   \<and> fetches (after_download p written w) = fetches w + 1
   \<and> slept (after_download p written w) = slept w
   \<and> ((\<forall>t. get_file e t = Inl TimedOut \<or> get_file e t = Inl NetworkError) \<longrightarrow>
        fst (download_file_safe e p n w) = (False, GaveUp)
        \<and> fetches (snd (download_file_safe e p n w)) = fetches w + n
        \<and> slept (snd (download_file_safe e p n w)) = slept w @ map (\<lambda>k. 2 ^ k) [0 ..< n - 1])
   \<and> ((\<forall>t. get_file e t = Inl TelegramError \<or> get_file e t = Inl OtherError) \<longrightarrow>
        fst (download_file_safe e p n w) = (False, GaveUp)
        \<and> fetches (snd (download_file_safe e p n w)) = fetches w + n
        \<and> slept (snd (download_file_safe e p n w)) = slept w)"
proof (intro conjI impI)
  show "download_file_safe e p n w = download_attempts e p n 0 w"
    by (simp add: download_file_safe_def)
next
  show "fetches (snd (download_attempts e p n a w)) \<le> fetches w + (n - a)"
    by (rule download_attempts_fetches)
next
  assume "n \<le> a"
  then show "download_attempts e p n a w = ((False, GaveUp), w)"
    by (simp add: download_attempts.simps [of e p n a w])
next
  assume h: "a < n \<and> get_file e (clock w) = Inr (Some declared) \<and> 20 * 1024 * 1024 < declared"
  then have "download_attempt e p n a w = (Some (False, DeclaredTooBig), after_get_file w)"
    by (simp add: download_attempt_def after_get_file_def)
  with h show "download_attempts e p n a w = ((False, DeclaredTooBig), after_get_file w)"
    by (simp add: download_attempts.simps [of e p n a w])
next
  assume h: "a < n \<and> attempt_error e w (BadRequest msg) w1 \<and> fatal_reason msg = Some r"
  then have "download_attempt e p n a w = (Some (False, r), w1)"
    by (simp add: attempt_error_body [of e w "BadRequest msg" w1] handle_fatal)
  with h show "download_attempts e p n a w = ((False, r), w1)"
    by (simp add: download_attempts.simps [of e p n a w])
next
  assume h: "a < n \<and> attempt_error e w (BadRequest msg) w1 \<and> fatal_reason msg = None"
  then have "download_attempt e p n a w = (None, w1)"
    by (simp add: attempt_error_body [of e w "BadRequest msg" w1] handle_other_bad)
  with h show "download_attempts e p n a w = download_attempts e p n (Suc a) w1"
    by (simp add: download_attempts.simps [of e p n a w])
next
  assume h: "a < n \<and> attempt_error e w err w1 \<and> (err = TimedOut \<or> err = NetworkError)"
  then have "download_attempt e p n a w = (None, if a + 1 < n then sleep (2 ^ a) w1 else w1)"
    using handle_network [of err n a w1] by (simp add: attempt_error_body [of e w err w1])
  with h show "download_attempts e p n a w =
          download_attempts e p n (Suc a) (if a + 1 < n then sleep (2 ^ a) w1 else w1)"
    by (simp add: download_attempts.simps [of e p n a w])
next
  assume h: "a < n \<and> attempt_error e w err w1 \<and> (err = TelegramError \<or> err = OtherError)"
  then have "download_attempt e p n a w = (None, w1)"
    using handle_other [of err n a w1] by (simp add: attempt_error_body [of e w err w1])
  with h show "download_attempts e p n a w = download_attempts e p n (Suc a) w1"
    by (simp add: download_attempts.simps [of e p n a w])
next
  assume h: "a < n \<and> get_file e (clock w) = Inr announced \<and> acceptable_size announced
        \<and> download e (Suc (clock w)) = Inr written"
  then have b: "download_attempt e p n a w =
     (if (case getsize (after_download p written w) p of None \<Rightarrow> False | Some k \<Rightarrow> 100 < k)
      then (Some (True, Downloaded), after_download p written w)
      else (None, after_download p written w))"
    using attempt_download_body [of e w announced written p n a] by simp
  from h show "download_attempts e p n a w =
          (if (case getsize (after_download p written w) p of None \<Rightarrow> False | Some k \<Rightarrow> 100 < k)
           then ((True, Downloaded), after_download p written w)
           else download_attempts e p n (Suc a) (after_download p written w))"
    unfolding download_attempts.simps [of e p n a w] b by simp
next
  assume a: "\<forall>t. get_file e t = Inl TimedOut \<or> get_file e t = Inl NetworkError"
  show "fst (download_file_safe e p n w) = (False, GaveUp)"
    "fetches (snd (download_file_safe e p n w)) = fetches w + n"
    "slept (snd (download_file_safe e p n w)) = slept w @ map (\<lambda>k. 2 ^ k) [0 ..< n - 1]"
    using download_attempts_network [OF a, of p n 0 w] by (simp_all add: download_file_safe_def)
next
  assume a: "\<forall>t. get_file e t = Inl TelegramError \<or> get_file e t = Inl OtherError"
  show "fst (download_file_safe e p n w) = (False, GaveUp)"
    "fetches (snd (download_file_safe e p n w)) = fetches w + n"
    "slept (snd (download_file_safe e p n w)) = slept w"
    using download_attempts_other [OF a, of p n 0 w] by (simp_all add: download_file_safe_def)
qed (simp_all add: after_worlds)


lemma fatal_reason_examples:
  "fatal_reason ''File not found'' = Some NotFoundOrExpired"
  "fatal_reason ''Bad Request: file is too big'' = Some ApiTooBig"
  "fatal_reason ''Wrong file identifier'' = None"
  by code_simp+

lemma attempt_error_get_file:
  "attempt_error (unreachable_env err) w err (after_get_file w)"
  by (simp add: attempt_error_def unreachable_env_def)

lemma attempt_error_download:
  "attempt_error (flaky_transfer_env err) fresh_world err (tick (after_get_file fresh_world))"
  by (simp add: attempt_error_def flaky_transfer_env_def studio_env_def acceptable_size_def fresh_world_def)

text \<open>
  Claim C6 as stated fails: after a Telegram error that is not a network failure the
  download is tried again, at once.
\<close>

theorem download_retries_after_other_error:
  "get_file hiccup_env (clock fresh_world) = Inl TelegramError
   \<and> fst (download_file_safe hiccup_env input_video 2 fresh_world) = (True, Downloaded)
   \<and> fetches (snd (download_file_safe hiccup_env input_video 2 fresh_world)) = 2
   \<and> slept (snd (download_file_safe hiccup_env input_video 2 fresh_world)) = []"
proof -
  have g0: "get_file hiccup_env 0 = Inl TelegramError" and g: "\<And>t. 0 < t \<Longrightarrow> get_file hiccup_env t = Inr (Some 5000)"
    and d: "\<And>t. download hiccup_env t = Inr (Some (replicate 5000 CHR ''v''))"
    by (simp_all add: hiccup_env_def studio_env_def)
  have c: "clock fresh_world = 0" by (simp add: fresh_world_def)
  let ?w1 = "tick (fresh_world\<lparr>fetches := Suc (fetches fresh_world)\<rparr>)"
  have a0: "download_attempt hiccup_env input_video 2 0 fresh_world = (None, ?w1)"
    by (simp add: download_attempt_def handle_download_error_def g0 c)
  have a1: "fst (download_attempt hiccup_env input_video 2 (Suc 0) ?w1) = Some (True, Downloaded)"
    by (simp add: download_attempt_def g d c getsize_def Let_def)
  obtain w2 where w2: "download_attempt hiccup_env input_video 2 (Suc 0) ?w1 = (Some (True, Downloaded), w2)"
    using a1 by (cases "download_attempt hiccup_env input_video 2 (Suc 0) ?w1") simp
  have f2: "fetches w2 = 2" "slept w2 = []"
    using w2 by (auto simp: download_attempt_def g d c getsize_def Let_def fresh_world_def)
  have "download_file_safe hiccup_env input_video 2 fresh_world = ((True, Downloaded), w2)"
    by (simp add: download_file_safe_def download_attempts.simps [of _ _ 2 0] a0
        download_attempts.simps [of _ _ 2 "Suc 0"] w2)
  with f2 g0 c show ?thesis by simp
qed

theorem download_file_safe_retry_policy_witness:
  "((1::nat) < 3 \<and> get_file oversized_env (clock fresh_world) = Inr (Some (21 * 1024 * 1024))
      \<and> 20 * 1024 * 1024 < (21 * 1024 * 1024 :: nat)
      \<and> download_attempts oversized_env input_video 3 1 fresh_world =
          ((False, DeclaredTooBig), after_get_file fresh_world))
   \<and> (attempt_error (flaky_transfer_env (BadRequest ''File not found'')) fresh_world
          (BadRequest ''File not found'') (tick (after_get_file fresh_world))
      \<and> fatal_reason ''File not found'' = Some NotFoundOrExpired
      \<and> download_attempts (flaky_transfer_env (BadRequest ''File not found'')) input_video 3 0 fresh_world =
          ((False, NotFoundOrExpired), tick (after_get_file fresh_world)))
   \<and> (attempt_error (unreachable_env (BadRequest ''Wrong file identifier'')) fresh_world
          (BadRequest ''Wrong file identifier'') (after_get_file fresh_world)
      \<and> fatal_reason ''Wrong file identifier'' = None
      \<and> download_attempts (unreachable_env (BadRequest ''Wrong file identifier'')) input_video 3 0 fresh_world =
          download_attempts (unreachable_env (BadRequest ''Wrong file identifier'')) input_video 3 1
            (after_get_file fresh_world))
   \<and> (attempt_error (flaky_transfer_env TimedOut) fresh_world TimedOut (tick (after_get_file fresh_world))
      \<and> download_attempts (flaky_transfer_env TimedOut) input_video 3 0 fresh_world =
          download_attempts (flaky_transfer_env TimedOut) input_video 3 1
            (sleep 1 (tick (after_get_file fresh_world)))
      \<and> download_attempts (flaky_transfer_env TimedOut) input_video 3 2 fresh_world =
          download_attempts (flaky_transfer_env TimedOut) input_video 3 3 (tick (after_get_file fresh_world)))
   \<and> (attempt_error (flaky_transfer_env OtherError) fresh_world OtherError (tick (after_get_file fresh_world))
      \<and> download_attempts (flaky_transfer_env OtherError) input_video 3 0 fresh_world =
          download_attempts (flaky_transfer_env OtherError) input_video 3 1 (tick (after_get_file fresh_world)))
   \<and> (get_file studio_env (clock fresh_world) = Inr (Some 5000) \<and> acceptable_size (Some 5000)
      \<and> download studio_env (Suc (clock fresh_world)) = Inr (Some (replicate 5000 CHR ''v''))
      \<and> download_attempts studio_env input_video 3 0 fresh_world =
          ((True, Downloaded), after_download input_video (Some (replicate 5000 CHR ''v'')) fresh_world))
   \<and> (get_file stub_transfer_env (clock fresh_world) = Inr (Some 5000)
      \<and> download stub_transfer_env (Suc (clock fresh_world)) = Inr (Some (replicate 100 CHR ''v''))
      \<and> download_attempts stub_transfer_env input_video 3 0 fresh_world =
          download_attempts stub_transfer_env input_video 3 1
            (after_download input_video (Some (replicate 100 CHR ''v'')) fresh_world))
   \<and> download_attempts studio_env input_video 3 3 fresh_world = ((False, GaveUp), fresh_world)
   \<and> ((\<forall>t. get_file (unreachable_env NetworkError) t = Inl TimedOut
            \<or> get_file (unreachable_env NetworkError) t = Inl NetworkError)
      \<and> fst (download_file_safe (unreachable_env NetworkError) input_video 4 fresh_world) = (False, GaveUp)
      \<and> fetches (snd (download_file_safe (unreachable_env NetworkError) input_video 4 fresh_world)) = 4
      \<and> slept (snd (download_file_safe (unreachable_env NetworkError) input_video 4 fresh_world)) = [1, 2, 4])
   \<and> ((\<forall>t. get_file (unreachable_env TelegramError) t = Inl TelegramError
            \<or> get_file (unreachable_env TelegramError) t = Inl OtherError)
      \<and> fst (download_file_safe (unreachable_env TelegramError) input_video 2 fresh_world) = (False, GaveUp)
      \<and> fetches (snd (download_file_safe (unreachable_env TelegramError) input_video 2 fresh_world)) = 2
      \<and> slept (snd (download_file_safe (unreachable_env TelegramError) input_video 2 fresh_world)) = [])"
proof -
  have u: "\<And>err t. get_file (unreachable_env err) t = Inl err"
    by (simp add: unreachable_env_def studio_env_def)
  have o: "get_file oversized_env (clock fresh_world) = Inr (Some (21 * 1024 * 1024))"
    by (simp add: oversized_env_def studio_env_def)
  have g: "get_file studio_env (clock fresh_world) = Inr (Some 5000)"
    "download studio_env (Suc (clock fresh_world)) = Inr (Some (replicate 5000 CHR ''v''))"
    "get_file stub_transfer_env (clock fresh_world) = Inr (Some 5000)"
    "download stub_transfer_env (Suc (clock fresh_world)) = Inr (Some (replicate 100 CHR ''v''))"
    "acceptable_size (Some 5000)"
    by (simp_all add: studio_env_def stub_transfer_env_def acceptable_size_def)
  have f: "fetches fresh_world = 0" "slept fresh_world = []" by (simp_all add: fresh_world_def)
  have up: "[0 ..< 3] = [0, 1, 2::nat]" by (simp add: upt_conv_Cons)
  have sz: "getsize (after_download input_video (Some (replicate 5000 CHR ''v'')) fresh_world) input_video = Some 5000"
    "getsize (after_download input_video (Some (replicate 100 CHR ''v'')) fresh_world) input_video = Some 100"
    by (simp_all add: getsize_def after_worlds)
  note t = download_file_safe_retry_policy
  have 1: "download_attempts oversized_env input_video 3 1 fresh_world =
          ((False, DeclaredTooBig), after_get_file fresh_world)"
    using t [of oversized_env input_video 3 fresh_world 1 "21 * 1024 * 1024"] o by simp
  have 2: "download_attempts (flaky_transfer_env (BadRequest ''File not found'')) input_video 3 0 fresh_world =
          ((False, NotFoundOrExpired), tick (after_get_file fresh_world))"
    using t [of "flaky_transfer_env (BadRequest ''File not found'')" input_video 3 fresh_world 0 _
          "''File not found''" "tick (after_get_file fresh_world)" NotFoundOrExpired]
      attempt_error_download [of "BadRequest ''File not found''"]
    by (simp add: fatal_reason_examples)
  have 3: "download_attempts (unreachable_env (BadRequest ''Wrong file identifier'')) input_video 3 0 fresh_world =
          download_attempts (unreachable_env (BadRequest ''Wrong file identifier'')) input_video 3 1
            (after_get_file fresh_world)"
    using t [of "unreachable_env (BadRequest ''Wrong file identifier'')" input_video 3 fresh_world 0 _
          "''Wrong file identifier''" "after_get_file fresh_world"]
      attempt_error_get_file [of "BadRequest ''Wrong file identifier''" fresh_world]
    by (simp add: fatal_reason_examples)
  have 4: "download_attempts (flaky_transfer_env TimedOut) input_video 3 0 fresh_world =
          download_attempts (flaky_transfer_env TimedOut) input_video 3 1
            (sleep 1 (tick (after_get_file fresh_world)))"
    using t [of "flaky_transfer_env TimedOut" input_video 3 fresh_world 0 _ _
          "tick (after_get_file fresh_world)" _ TimedOut]
      attempt_error_download [of TimedOut]
    by simp
  have 5: "download_attempts (flaky_transfer_env TimedOut) input_video 3 2 fresh_world =
          download_attempts (flaky_transfer_env TimedOut) input_video 3 3 (tick (after_get_file fresh_world))"
    using t [of "flaky_transfer_env TimedOut" input_video 3 fresh_world 2 _ _
          "tick (after_get_file fresh_world)" _ TimedOut]
      attempt_error_download [of TimedOut]
    by (simp add: numeral_3_eq_3)
  have 6: "download_attempts (flaky_transfer_env OtherError) input_video 3 0 fresh_world =
          download_attempts (flaky_transfer_env OtherError) input_video 3 1 (tick (after_get_file fresh_world))"
    using t [of "flaky_transfer_env OtherError" input_video 3 fresh_world 0 _ _
          "tick (after_get_file fresh_world)" _ OtherError]
      attempt_error_download [of OtherError]
    by simp
  have 7: "download_attempts studio_env input_video 3 0 fresh_world =
          ((True, Downloaded), after_download input_video (Some (replicate 5000 CHR ''v'')) fresh_world)"
    using t [of studio_env input_video 3 fresh_world 0 _ _ _ _ _ "Some 5000" "Some (replicate 5000 CHR ''v'')"] g
    by (simp add: sz)
  have 8: "download_attempts stub_transfer_env input_video 3 0 fresh_world =
          download_attempts stub_transfer_env input_video 3 1
            (after_download input_video (Some (replicate 100 CHR ''v'')) fresh_world)"
    using t [of stub_transfer_env input_video 3 fresh_world 0 _ _ _ _ _ "Some 5000" "Some (replicate 100 CHR ''v'')"] g
    by (simp add: sz)
  have 9: "download_attempts studio_env input_video 3 3 fresh_world = ((False, GaveUp), fresh_world)"
    using t [of studio_env input_video 3 fresh_world 3] by simp
  have 10: "fst (download_file_safe (unreachable_env NetworkError) input_video 4 fresh_world) = (False, GaveUp)
      \<and> fetches (snd (download_file_safe (unreachable_env NetworkError) input_video 4 fresh_world)) = 4
      \<and> slept (snd (download_file_safe (unreachable_env NetworkError) input_video 4 fresh_world)) = [1, 2, 4]"
    using t [of "unreachable_env NetworkError" input_video 4 fresh_world 0 0 "[]" fresh_world
          GaveUp OtherError None None] u
    by (simp add: f up download_file_safe_def)
  have 11: "fst (download_file_safe (unreachable_env TelegramError) input_video 2 fresh_world) = (False, GaveUp)
      \<and> fetches (snd (download_file_safe (unreachable_env TelegramError) input_video 2 fresh_world)) = 2
      \<and> slept (snd (download_file_safe (unreachable_env TelegramError) input_video 2 fresh_world)) = []"
    using t [of "unreachable_env TelegramError" input_video 2 fresh_world 0 0 "[]" fresh_world
          GaveUp OtherError None None] u
    by (simp add: f download_file_safe_def)
  show ?thesis
    using 1 2 3 4 5 6 7 8 9 10 11 o u g
      attempt_error_download [of "BadRequest ''File not found''"]
      attempt_error_download [of TimedOut] attempt_error_download [of OtherError]
      attempt_error_get_file [of "BadRequest ''Wrong file identifier''" fresh_world]
    by (simp add: fatal_reason_examples)
qed

section \<open>Properties of the subtitle burner\<close>

lemma os_remove_frame:
  "cwd (snd (os_remove e p w)) = cwd w" "dirs (snd (os_remove e p w)) = dirs w"
  by (simp_all add: os_remove_def)

lemma safe_file_operation_frame:
  "cwd (safe_file_operation e p a w) = cwd w \<and> dirs (safe_file_operation e p a w) = dirs w"
proof (induction e p a w rule: safe_file_operation.induct)
  case (1 e p attempt w)
  obtain ok w1 where r: "os_remove e p w = (ok, w1)" by (cases "os_remove e p w")
  then have f: "cwd w1 = cwd w" "dirs w1 = dirs w"
    using os_remove_frame [of e p w] by simp_all
  show ?case
  proof (cases "attempt < 3")
    case False
    then show ?thesis by (simp add: safe_file_operation.simps [of e p attempt w])
  next
    case True
    show ?thesis
    proof (cases "\<not> ok \<and> attempt < 3 - 1")
      case c: True
      then have r': "(False, w1) = os_remove e p w" using r by simp
      from "1.IH" [OF True r'] c True r f show ?thesis
        by (simp add: safe_file_operation.simps [of e p attempt w])
    next
      case False
      with \<open>attempt < 3\<close> r f show ?thesis
        by (auto simp: safe_file_operation.simps [of e p attempt w] split: bool.splits)
    qed
  qed
qed

lemma cleanup_files_frame:
  "cwd (cleanup_files e ps w) = cwd w \<and> dirs (cleanup_files e ps w) = dirs w"
  by (induction ps arbitrary: w) (auto simp: safe_file_operation_frame split: option.splits)

lemma copyfile_frame:
  "cwd (snd (copyfile e a b w)) = cwd w" "dirs (snd (copyfile e a b w)) = dirs w"
  by (simp_all add: copyfile_def split: option.splits copy_outcome.splits)

lemma embed_check_frame:
  assumes "embed_check od out rc w = (r, w')"
  shows "dirs w' = dirs w \<and> (\<forall>x. r = Inr x \<longrightarrow> cwd w' = od)
       \<and> (\<forall>ex d. r = Inl (ex, d) \<longrightarrow> d = Some od)"
  using assms by (auto simp: embed_check_def chdir_def split: if_splits)

lemma embed_run_frame:
  assumes "embed_run e od sv ss out fs cc w = (r, w')"
  shows "dirs w' = dirs w \<and> (\<forall>x. r = Inr x \<longrightarrow> cwd w' = od)
       \<and> (\<forall>ex d. r = Inl (ex, d) \<longrightarrow> d = Some od)"
proof -
  let ?cmd = "ffmpeg_command (basename sv) (basename ss) (basename out) fs cc"
  obtain res written where rf: "run_ffmpeg e (clock w) ?cmd = (res, written)"
    by (cases "run_ffmpeg e (clock w) ?cmd")
  let ?w1 = "tick (w\<lparr>commands := commands w @ [?cmd],
                       files := (case written of
                                   None \<Rightarrow> files w
                                 | Some content \<Rightarrow> (files w)(path_join (cwd w) (basename out) \<mapsto> content))\<rparr>)"
  have d1: "dirs ?w1 = dirs w" by simp
  show ?thesis
  proof (cases res)
    case RunTimeout
    with assms rf show ?thesis by (auto simp: embed_run_def Let_def)
  next
    case RunRaises
    with assms rf show ?thesis by (auto simp: embed_run_def Let_def)
  next
    case (RunExit rc)
    with assms rf have "embed_check od out rc ?w1 = (r, w')"
      by (simp add: embed_run_def Let_def)
    from embed_check_frame [OF this] d1 show ?thesis by simp
  qed
qed

lemma embed_try_frame:
  assumes "embed_try e v s sv ss out fs fc w = (r, w')"
  shows "dirs w' = dirs w"
    and "\<And>x. r = Inr x \<Longrightarrow> cwd w' = cwd w"
    and "\<And>ex. r = Inl (ex, None) \<Longrightarrow> cwd w' = cwd w"
    and "\<And>ex d. r = Inl (ex, Some d) \<Longrightarrow> d = cwd w"
proof -
  obtain ok1 w1 where c1: "copyfile e v sv w = (ok1, w1)" by (cases "copyfile e v sv w")
  obtain ok2 w2 where c2: "copyfile e s ss w1 = (ok2, w2)" by (cases "copyfile e s ss w1")
  have f1: "cwd w1 = cwd w" "dirs w1 = dirs w" using copyfile_frame [of e v sv w] c1 by simp_all
  have f2: "cwd w2 = cwd w" "dirs w2 = dirs w" using copyfile_frame [of e s ss w1] c2 f1 by simp_all
  have "dirs w' = dirs w \<and> (\<forall>x. r = Inr x \<longrightarrow> cwd w' = cwd w)
      \<and> (\<forall>ex. r = Inl (ex, None) \<longrightarrow> cwd w' = cwd w) \<and> (\<forall>ex d. r = Inl (ex, Some d) \<longrightarrow> d = cwd w)"
  proof (cases "ok1 \<and> ok2")
    case False
    with assms c1 c2 f1 f2 show ?thesis
      by (cases ok1; cases ok2) (auto simp: embed_try_def)
  next
    case True
    show ?thesis
    proof (cases "tmp_dir e \<in> dirs w")
      case False
      with assms c1 c2 f1 f2 True show ?thesis
        by (auto simp: embed_try_def chdir_def Let_def)
    next
      case td: True
      with assms c1 c2 f1 f2 True
      have "embed_run e (cwd w) sv ss out fs
              (case COLOR_CODES fc of None \<Rightarrow> ''&H00FFFFFF&'' | Some c \<Rightarrow> c)
              (w2\<lparr>cwd := tmp_dir e\<rparr>) = (r, w')"
        by (simp add: embed_try_def chdir_def Let_def)
      from embed_run_frame [OF this] f2 show ?thesis by auto
    qed
  qed
  then show "dirs w' = dirs w"
    and "\<And>x. r = Inr x \<Longrightarrow> cwd w' = cwd w"
    and "\<And>ex. r = Inl (ex, None) \<Longrightarrow> cwd w' = cwd w"
    and "\<And>ex d. r = Inl (ex, Some d) \<Longrightarrow> d = cwd w"
    by blast+
qed

text \<open>
  Claim C5. \<open>embed_subtitles_safe\<close> leaves the process in the working directory in
  which it was called, on every exit path: normal return, a failed copy, a transcoder that
  exits with a non-zero status, times out or cannot be started, a missing output file.
  The original directory must still exist, or there is nothing to return to.
\<close>

theorem embed_subtitles_safe_restores_cwd:
  assumes "cwd w \<in> dirs w"
  shows "cwd (snd (embed_subtitles_safe e video_path srt_path user_id font_size font_color w)) = cwd w"
proof -
  let ?sv = "path_join (tmp_dir e) (''v_'' @ user_id @ ''_'' @ digits (time_at e (clock w)) @ ''.mp4'')"
  let ?ss = "path_join (tmp_dir e) (''s_'' @ user_id @ ''_'' @ digits (time_at e (clock w)) @ ''.srt'')"
  let ?out = "path_join (tmp_dir e) (''o_'' @ user_id @ ''_'' @ digits (time_at e (clock w)) @ ''.mp4'')"
  obtain r w' where t: "embed_try e video_path srt_path ?sv ?ss ?out font_size font_color (tick w) = (r, w')"
    by (cases "embed_try e video_path srt_path ?sv ?ss ?out font_size font_color (tick w)")
  note f = embed_try_frame [OF t, simplified]
  show ?thesis
  proof (cases r)
    case (Inr x)
    with t f(2) show ?thesis by (simp add: embed_subtitles_safe_def Let_def)
  next
    case (Inl a)
    obtain ex od where a: "a = (ex, od)" by (cases a)
    show ?thesis
    proof (cases od)
      case None
      with t f(3) Inl a show ?thesis by (simp add: embed_subtitles_safe_def Let_def)
    next
      case (Some d)
      with f(4) Inl a have "d = cwd w" by simp
      with t f(1) Inl a Some assms show ?thesis
        by (simp add: embed_subtitles_safe_def Let_def chdir_def cleanup_files_frame del: cleanup_files.simps)
    qed
  qed
qed

lemma failing_transcoder_embed:
  "fst (embed_subtitles_safe failing_transcoder_env input_video ''/tmp/subs_7_1700000000.srt'' ''7'' 24
          ''white'' staged_world) = Inl EmbedFailed"
  by (simp add: embed_subtitles_safe_def embed_try_def embed_run_def embed_check_def copyfile_def
      chdir_def getsize_def path_join_def basename_def digits_ts failing_transcoder_env_def
      studio_env_def staged_world_def fresh_world_def input_video_def Let_def)

theorem embed_subtitles_safe_restores_cwd_witness:
  "cwd staged_world \<in> dirs staged_world
   \<and> fst (embed_subtitles_safe failing_transcoder_env input_video ''/tmp/subs_7_1700000000.srt'' ''7'' 24
          ''white'' staged_world) = Inl EmbedFailed
   \<and> cwd (snd (embed_subtitles_safe failing_transcoder_env input_video ''/tmp/subs_7_1700000000.srt'' ''7'' 24
          ''white'' staged_world)) = ''/home/bot''"
proof -
  have h: "cwd staged_world \<in> dirs staged_world"
    by (simp add: staged_world_def fresh_world_def)
  from embed_subtitles_safe_restores_cwd [OF h] h failing_transcoder_embed show ?thesis
    by (simp add: staged_world_def fresh_world_def)
qed

section \<open>A delivered job\<close>

lemma bot_call_frame [simp]:
  "files (snd (bot_call e m w)) = files w" "cwd (snd (bot_call e m w)) = cwd w"
  "dirs (snd (bot_call e m w)) = dirs w"
  by (simp_all add: bot_call_def)

lemma translate_attempts_frame:
  "files (snd (translate_attempts e tx n a w)) = files w
   \<and> cwd (snd (translate_attempts e tx n a w)) = cwd w
   \<and> dirs (snd (translate_attempts e tx n a w)) = dirs w"
proof (induction e tx n a w rule: translate_attempts.induct)
  case (1 e tx max_retries attempt w)
  show ?case
  proof (cases "attempt < max_retries")
    case False
    then show ?thesis by (simp add: translate_attempts.simps [of e tx max_retries attempt w])
  next
    case True
    note ih = 1 [OF True refl]
    show ?thesis
    proof (cases "translate e (clock w) (strip tx)")
      case TrRaises
      with ih(1) [OF TrRaises] True show ?thesis
        by (simp add: translate_attempts.simps [of e tx max_retries attempt w] Let_def)
    next
      case TrFalsy
      with ih(2) [OF TrFalsy] True show ?thesis
        by (simp add: translate_attempts.simps [of e tx max_retries attempt w] Let_def)
    next
      case (TrText r)
      with ih(3) [OF TrText] True show ?thesis
        by (simp add: translate_attempts.simps [of e tx max_retries attempt w] Let_def)
    qed
  qed
qed

lemma translate_text_safe_frame:
  "files (snd (translate_text_safe e tx n w)) = files w
   \<and> cwd (snd (translate_text_safe e tx n w)) = cwd w
   \<and> dirs (snd (translate_text_safe e tx n w)) = dirs w"
proof -
  obtain r w' where a: "translate_attempts e tx n 0 (tick w) = (r, w')"
    by (cases "translate_attempts e tx n 0 (tick w)")
  then have "files w' = files w \<and> cwd w' = cwd w \<and> dirs w' = dirs w"
    using translate_attempts_frame [of e tx n 0 "tick w"] by simp
  with a show ?thesis
    by (simp add: translate_text_safe_def)
qed

lemma process_segments_from_frame:
  "files (snd (process_segments_from e t i segs acc w)) = files w
   \<and> cwd (snd (process_segments_from e t i segs acc w)) = cwd w
   \<and> dirs (snd (process_segments_from e t i segs acc w)) = dirs w"
proof (induction segs arbitrary: i acc w)
  case Nil
  then show ?case by simp
next
  case (Cons seg rest)
  let ?w1 = "if i mod 5 = 0 \<or> Suc i = t then snd (bot_call e (MsgTranslating (i + 1) t) w) else w"
  have f1: "files ?w1 = files w" "cwd ?w1 = cwd w" "dirs ?w1 = dirs w" by simp_all
  show ?case
  proof (cases "strip (seg_text seg) = []")
    case True
    with Cons [of "Suc i" acc ?w1] f1 show ?thesis by (simp add: Let_def)
  next
    case False
    obtain r w2 where tr: "translate_text_safe e (strip (seg_text seg)) 3 ?w1 = (r, w2)"
      by (cases "translate_text_safe e (strip (seg_text seg)) 3 ?w1")
    have f2: "files w2 = files w" "cwd w2 = cwd w" "dirs w2 = dirs w"
      using translate_text_safe_frame [of e "strip (seg_text seg)" 3 ?w1] tr f1 by simp_all
    show ?thesis
      using False tr f2 Cons [of "Suc i" _ w2]
      by (cases r) (simp_all add: Let_def)
  qed
qed

lemma studio_bot_call: "bot_call studio_env m w = (Inr (), tick (w\<lparr>outbox := outbox w @ [m]\<rparr>))"
  by (simp add: bot_call_def studio_env_def)

lemma studio_load_model: "load_model studio_env w = (Inr (), tick w)"
  by (simp add: load_model_def studio_env_def)

lemma studio_remove:
  "files w p \<noteq> None \<Longrightarrow>
   safe_file_operation studio_env p 0 w = tick (w\<lparr>files := (files w)(p := None)\<rparr>)"
  by (simp add: safe_file_operation.simps [of _ _ 0] os_remove_def studio_env_def)

lemma studio_extract:
  assumes "files w ''/tmp/audio_7_1700000000.wav'' = None"
  shows "\<exists>w'. extract_audio_safe studio_env v ''7'' w = (Inr ''/tmp/audio_7_1700000000.wav'', w')
        \<and> files w' = (files w)(''/tmp/audio_7_1700000000.wav'' \<mapsto> replicate 2000 CHR ''a'')
        \<and> cwd w' = cwd w \<and> dirs w' = dirs w"
  using assms
  by (simp add: extract_audio_safe_def studio_env_def path_join_def digits_ts path_exists_def
      getsize_def Let_def)

lemma studio_segments:
  "\<exists>seg rest w'. process_segments_safe studio_env two_segments w = (seg # rest, w')
        \<and> files w' = files w \<and> cwd w' = cwd w \<and> dirs w' = dirs w"
proof -
  obtain hs w' where r: "process_segments_safe studio_env two_segments w = (hs, w')"
    by (cases "process_segments_safe studio_env two_segments w")
  have "length hs = 2"
    using psf_length [of studio_env "length two_segments" 0 two_segments "[]" w] r
    by (simp add: process_segments_safe_def two_segments_def strip_examples)
  then obtain seg rest where "hs = seg # rest" by (cases hs) auto
  moreover have "files w' = files w \<and> cwd w' = cwd w \<and> dirs w' = dirs w"
    using process_segments_from_frame [of studio_env "length two_segments" 0 two_segments "[]" w] r
    by (simp add: process_segments_safe_def)
  ultimately show ?thesis using r by blast
qed

lemma studio_srt:
  "\<exists>w'. create_srt_file_safe studio_env hs ''7'' w = (Inr ''/tmp/subs_7_1700000000.srt'', w')
        \<and> files w' = (files w)(''/tmp/subs_7_1700000000.srt'' \<mapsto> srt_entries 1 hs)
        \<and> cwd w' = cwd w \<and> dirs w' = dirs w"
  by (simp add: create_srt_file_safe_def studio_env_def path_join_def digits_ts Let_def)

lemma basename_tmp: "CHR ''/'' \<notin> set n \<Longrightarrow> basename (''/tmp/'' @ n) = n"
proof -
  assume a: "CHR ''/'' \<notin> set n"
  then have "takeWhile (\<lambda>c. c \<noteq> CHR ''/'') (rev n @ ''/pmt/'') = rev n"
    by (simp add: takeWhile_append)
  then show ?thesis by (simp add: basename_def)
qed

lemma studio_embed:
  assumes "files w v = Some c1" and "files w ''/tmp/subs_7_1700000000.srt'' = Some c2"
    and "cwd w \<in> dirs w" and "''/tmp'' \<in> dirs w"
  shows "\<exists>w'. embed_subtitles_safe studio_env v ''/tmp/subs_7_1700000000.srt'' ''7'' fs fc w
            = (Inr ''/tmp/o_7_1700000000.mp4'', w')
        \<and> files w' = (files w)(''/tmp/v_7_1700000000.mp4'' \<mapsto> c1, ''/tmp/s_7_1700000000.srt'' \<mapsto> c2,
                                ''/tmp/o_7_1700000000.mp4'' \<mapsto> replicate 2000 CHR ''o'')
        \<and> cwd w' = cwd w \<and> dirs w' = dirs w"
  using assms
  by (simp add: embed_subtitles_safe_def embed_try_def embed_run_def embed_check_def copyfile_def
      chdir_def getsize_def path_join_def basename_def digits_ts studio_env_def Let_def)

lemma studio_cleanup:
  "files (cleanup_files studio_env ps w) =
     (\<lambda>p. if Some p \<in> set ps \<and> p \<noteq> [] then None else files w p)
   \<and> outbox (cleanup_files studio_env ps w) = outbox w"
proof (induction ps arbitrary: w)
  case Nil
  then show ?case by simp
next
  case (Cons a ps)
  show ?case
  proof (cases a)
    case None
    with Cons [of w] show ?thesis by auto
  next
    case (Some p)
    show ?thesis
    proof (cases "p \<noteq> [] \<and> files w p \<noteq> None")
      case True
      with Some Cons [of "tick (w\<lparr>files := (files w)(p := None)\<rparr>)"] show ?thesis
        by (auto simp: path_exists_def studio_remove)
    next
      case False
      with Some Cons [of w] show ?thesis
        by (auto simp: path_exists_def)
    qed
  qed
qed

lemma studio_status:
  "\<exists>w'. bot_call studio_env m w = (Inr (), w') \<and> files w' = files w \<and> cwd w' = cwd w
        \<and> dirs w' = dirs w \<and> outbox w' = outbox w @ [m]"
  by (simp add: studio_bot_call)

lemma studio_transcribe: "transcribe studio_env t = Some two_segments"
  by (simp add: studio_env_def)

text \<open>
  Claim C2 fails on the code. In the run in which every stage succeeds the video is sent
  and the final status is "done"; afterwards the audio file, the subtitle file and the
  output file are gone, but the scratch copy of the video and the scratch copy of the
  subtitles are still on disk: \<open>embed_subtitles_safe\<close> removes them in its handlers
  only, and the \<open>finally\<close> clause of \<open>process_video_complete\<close> does not know them.
\<close>

theorem delivered_job_leaves_scratch_copies:
  "last (outbox (process_video_complete studio_env input_video ''7'' 24 ''white'' fresh_world)) = MsgDone
   \<and> map (\<lambda>p. files (process_video_complete studio_env input_video ''7'' 24 ''white'' fresh_world) p \<noteq> None)
        [''/tmp/audio_7_1700000000.wav'', ''/tmp/subs_7_1700000000.srt'', ''/tmp/o_7_1700000000.mp4'',
         ''/tmp/v_7_1700000000.mp4'', ''/tmp/s_7_1700000000.srt'']
      = [False, False, False, True, True]"
proof -
  let ?A = "''/tmp/audio_7_1700000000.wav''" and ?S = "''/tmp/subs_7_1700000000.srt''"
    and ?O = "''/tmp/o_7_1700000000.mp4''" and ?V = "''/tmp/v_7_1700000000.mp4''"
    and ?SS = "''/tmp/s_7_1700000000.srt''"
  have f0: "files fresh_world = [input_video \<mapsto> replicate 5000 CHR ''v'']"
    "cwd fresh_world = ''/home/bot''" "dirs fresh_world = {''/home/bot'', ''/tmp''}"
    by (simp_all add: fresh_world_def)
  obtain w1 where e1: "bot_call studio_env MsgLoadingModel fresh_world = (Inr (), w1)"
    and f1: "files w1 = files fresh_world" "cwd w1 = cwd fresh_world" "dirs w1 = dirs fresh_world"
    using studio_status [of MsgLoadingModel fresh_world] by blast
  have e2: "load_model studio_env w1 = (Inr (), tick w1)" by (rule studio_load_model)
  obtain w3 where e3: "bot_call studio_env MsgExtracting (tick w1) = (Inr (), w3)"
    and f3: "files w3 = files w1" "cwd w3 = cwd w1" "dirs w3 = dirs w1"
    using studio_status [of MsgExtracting "tick w1"] by auto
  have "files w3 ?A = None" by (simp add: f3 f1 f0 input_video_def)
  from studio_extract [OF this, of input_video] obtain w4 where
    e4: "extract_audio_safe studio_env input_video ''7'' w3 = (Inr ?A, w4)"
    and f4: "files w4 = (files w3)(?A \<mapsto> replicate 2000 CHR ''a'')" "cwd w4 = cwd w3" "dirs w4 = dirs w3"
    by auto
  obtain w5 where e5: "bot_call studio_env MsgRecognising w4 = (Inr (), w5)"
    and f5: "files w5 = files w4" "cwd w5 = cwd w4" "dirs w5 = dirs w4"
    using studio_status [of MsgRecognising w4] by blast
  from studio_segments [of "tick w5"] obtain seg rest w6 where
    e6: "process_segments_safe studio_env two_segments (tick w5) = (seg # rest, w6)"
    and f6: "files w6 = files w5" "cwd w6 = cwd w5" "dirs w6 = dirs w5"
    by auto
  obtain w7 where e7: "bot_call studio_env MsgCreatingSubs w6 = (Inr (), w7)"
    and f7: "files w7 = files w6" "cwd w7 = cwd w6" "dirs w7 = dirs w6"
    using studio_status [of MsgCreatingSubs w6] by blast
  from studio_srt [of "seg # rest" w7] obtain w8 where
    e8: "create_srt_file_safe studio_env (seg # rest) ''7'' w7 = (Inr ?S, w8)"
    and f8: "files w8 = (files w7)(?S \<mapsto> srt_entries 1 (seg # rest))" "cwd w8 = cwd w7" "dirs w8 = dirs w7"
    by blast
  obtain w9 where e9: "bot_call studio_env MsgEmbedding w8 = (Inr (), w9)"
    and f9: "files w9 = files w8" "cwd w9 = cwd w8" "dirs w9 = dirs w8"
    using studio_status [of MsgEmbedding w8] by blast
  have h: "files w9 input_video = Some (replicate 5000 CHR ''v'')"
      "files w9 ?S = Some (srt_entries 1 (seg # rest))" "cwd w9 \<in> dirs w9" "''/tmp'' \<in> dirs w9"
    by (simp_all add: f9 f8 f7 f6 f5 f4 f3 f1 f0 input_video_def)
  from studio_embed [OF h, of 24 "''white''"] obtain w10 where
    e10: "embed_subtitles_safe studio_env input_video ?S ''7'' 24 ''white'' w9 = (Inr ?O, w10)"
    and f10: "files w10 = (files w9)(?V \<mapsto> replicate 5000 CHR ''v'', ?SS \<mapsto> srt_entries 1 (seg # rest),
                                ?O \<mapsto> replicate 2000 CHR ''o'')"
    by blast
  obtain w11 where e11: "bot_call studio_env MsgSending w10 = (Inr (), w11)"
    and f11: "files w11 = files w10"
    using studio_status [of MsgSending w10] by blast
  obtain w12 where e12: "bot_call studio_env (MsgVideo ?O) w11 = (Inr (), w12)"
    and f12: "files w12 = files w11"
    using studio_status [of "MsgVideo ?O" w11] by blast
  obtain w13 where e13: "bot_call studio_env MsgDone w12 = (Inr (), w13)"
    and f13: "files w13 = files w12" "outbox w13 = outbox w12 @ [MsgDone]"
    using studio_status [of MsgDone w12] by blast
  have g: "getsize w11 ?O = Some 2000" by (simp add: getsize_def f11 f10)
  have t: "process_video_try studio_env input_video ''7'' 24 ''white'' fresh_world
           = (Inr (), Some ?A, Some ?S, Some ?O, w13)"
    unfolding process_video_try_def
    by (simp add: e1 e2 e3 e4 e5 studio_transcribe e6 [unfolded two_segments_def]
          two_segments_def e7 e8 e9 e10 e11 g MAX_FILE_SIZE_def e12 e13)
  have fin: "process_video_complete studio_env input_video ''7'' 24 ''white'' fresh_world
        = cleanup_files studio_env [Some ?A, Some ?S, Some ?O] w13"
    by (simp add: process_video_complete_def t del: cleanup_files.simps)
  have fw: "files w13 = [input_video \<mapsto> replicate 5000 CHR ''v'', ?A \<mapsto> replicate 2000 CHR ''a'',
        ?S \<mapsto> srt_entries 1 (seg # rest), ?V \<mapsto> replicate 5000 CHR ''v'',
        ?SS \<mapsto> srt_entries 1 (seg # rest), ?O \<mapsto> replicate 2000 CHR ''o'']"
    by (simp add: f13 f12 f11 f10 f9 f8 f7 f6 f5 f4 f3 f1 f0)
  show ?thesis
    unfolding fin
    using studio_cleanup [of "[Some ?A, Some ?S, Some ?O]" w13]
    by (simp add: fw f13 del: cleanup_files.simps)
qed

section \<open>Translation failure is recovered\<close>

lemma digit_char: "k < 10 \<Longrightarrow> ''0123456789'' ! k \<noteq> CHR ''/''"
proof -
  assume "k < 10"
  then have "''0123456789'' ! k \<in> set ''0123456789''" by (intro nth_mem) simp
  moreover have "CHR ''/'' \<notin> set ''0123456789''" by simp
  ultimately show ?thesis by metis
qed

lemma digits_no_slash: "CHR ''/'' \<notin> set (digits n)"
proof (induction n rule: digits.induct)
  case (1 n)
  show ?case
  proof (cases "n < 10")
    case True
    have "digits n = [''0123456789'' ! n]" using True by (subst digits.simps) (simp only: if_True)
    then show ?thesis using digit_char [OF True] by (simp only: list.set) auto
  next
    case False
    have m: "n mod 10 < 10" by simp
    have "digits n = digits (n div 10) @ [''0123456789'' ! (n mod 10)]"
      using False by (subst digits.simps) (simp only: if_False)
    then show ?thesis using digit_char [OF m] 1 [OF False] by (simp only: set_append list.set) auto
  qed
qed


lemma basename_append:
  "CHR ''/'' \<notin> set n \<Longrightarrow> d = [] \<or> last d = CHR ''/'' \<Longrightarrow> basename (d @ n) = n"
proof -
  assume a: "CHR ''/'' \<notin> set n" and d: "d = [] \<or> last d = CHR ''/''"
  have tw: "takeWhile (\<lambda>c. c \<noteq> CHR ''/'') (rev n) = rev n"
    using a by (auto simp: takeWhile_eq_all_conv)
  have all: "\<forall>x \<in> set (rev n). x \<noteq> CHR ''/''" using a by auto
  show ?thesis
  proof (cases "d = []")
    case True
    then show ?thesis by (simp add: basename_def tw)
  next
    case False
    with d obtain d' where d': "d = d' @ [CHR ''/'']"
      by (metis append_butlast_last_id)
    have "takeWhile (\<lambda>c. c \<noteq> CHR ''/'') (rev n @ (CHR ''/'' # rev d')) = rev n"
      using all by (subst takeWhile_append2) simp_all
    then show ?thesis unfolding d' by (simp add: basename_def)
  qed
qed

lemma basename_path_join:
  assumes "CHR ''/'' \<notin> set n"
  shows "basename (path_join d n) = n"
proof -
  have hd: "\<not> (n \<noteq> [] \<and> hd n = CHR ''/'')" using assms by (cases n) auto
  show ?thesis
  proof (cases "d = [] \<or> last d = CHR ''/''")
    case True
    then have "path_join d n = d @ n" using hd by (auto simp: path_join_def)
    then show ?thesis using basename_append [OF assms True] by simp
  next
    case False
    then have "path_join d n = (d @ ''/'') @ n" using hd by (auto simp: path_join_def)
    moreover have "basename ((d @ ''/'') @ n) = n"
      by (rule basename_append [OF assms]) simp
    ultimately show ?thesis by simp
  qed
qed


lemma os_remove_other:
  "(q \<noteq> p \<longrightarrow> files (snd (os_remove e p w)) q = files w q)
   \<and> outbox (snd (os_remove e p w)) = outbox w"
  by (simp add: os_remove_def)

lemma safe_file_operation_other:
  "(q \<noteq> p \<longrightarrow> files (safe_file_operation e p a w) q = files w q)
   \<and> outbox (safe_file_operation e p a w) = outbox w"
proof (induction e p a w rule: safe_file_operation.induct)
  case (1 e p attempt w)
  obtain ok w1 where r: "os_remove e p w = (ok, w1)" by (cases "os_remove e p w")
  then have f: "q \<noteq> p \<longrightarrow> files w1 q = files w q" "outbox w1 = outbox w"
    using os_remove_other [of q p e w] by simp_all
  show ?case
  proof (cases "attempt < 3")
    case False
    then show ?thesis by (simp add: safe_file_operation.simps [of e p attempt w])
  next
    case True
    show ?thesis
    proof (cases "\<not> ok \<and> attempt < 3 - 1")
      case c: True
      then have r': "(False, w1) = os_remove e p w" using r by simp
      from "1.IH" [OF True r'] c True r f show ?thesis
        by (simp add: safe_file_operation.simps [of e p attempt w] sleep_def)
    next
      case False
      with \<open>attempt < 3\<close> r f show ?thesis
        by (auto simp: safe_file_operation.simps [of e p attempt w] split: bool.splits)
    qed
  qed
qed

lemma cleanup_files_outbox: "outbox (cleanup_files e ps w) = outbox w"
  by (induction ps arbitrary: w) (auto simp: safe_file_operation_other split: option.splits)

lemma cleanup_one_other:
  "q \<noteq> p \<Longrightarrow> files (cleanup_files e [Some p] w) q = files w q"
  by (simp add: safe_file_operation_other)


lemma bot_call_ok:
  "bot_ok e (clock w) \<Longrightarrow> bot_call e m w = (Inr (), tick (w\<lparr>outbox := outbox w @ [m]\<rparr>))"
  by (simp add: bot_call_def)

lemma extract_audio_safe_ok:
  assumes x: "\<forall>t. \<exists>c. ffmpeg_extract e t = (True, Some c) \<and> 1000 < length c"
    and v: "files w v \<noteq> None"
  shows "\<exists>a w'. extract_audio_safe e v u w = (Inr a, w') \<and> files w' v \<noteq> None
          \<and> cwd w' = cwd w \<and> dirs w' = dirs w"
proof -
  define a where "a = path_join (tmp_dir e) (''audio_'' @ u @ ''_'' @ digits (time_at e (clock w)) @ ''.wav'')"
  define w0 where "w0 = cleanup_files e [Some a] (tick w)"
  obtain c where c: "ffmpeg_extract e (clock w0) = (True, Some c)" "1000 < length c"
    using x by blast
  define w1 where "w1 = tick (w0\<lparr>files := (files w0)(a \<mapsto> c)\<rparr>)"
  have r: "extract_audio_safe e v u w = (Inr a, w1)"
    using c
    by (simp add: extract_audio_safe_def Let_def getsize_def w1_def w0_def a_def
        del: cleanup_files.simps)
  have f0: "cwd w0 = cwd w" "dirs w0 = dirs w"
    using cleanup_files_frame [of e "[Some a]" "tick w"] by (simp_all add: w0_def del: cleanup_files.simps)
  have "files w1 v \<noteq> None"
  proof (cases "v = a")
    case True
    then show ?thesis by (simp add: w1_def)
  next
    case False
    then have "files w0 v = files w v"
      using cleanup_one_other [of v a e "tick w"] by (simp add: w0_def del: cleanup_files.simps)
    with False v show ?thesis by (simp add: w1_def)
  qed
  with r f0 show ?thesis by (simp add: w1_def)
qed

lemma process_segments_safe_ok:
  assumes "\<exists>s \<in> set segs. strip (seg_text s) \<noteq> []"
  shows "\<exists>seg rest w'. process_segments_safe e segs w = (seg # rest, w')
        \<and> files w' = files w \<and> cwd w' = cwd w \<and> dirs w' = dirs w"
proof -
  obtain hs w' where r: "process_segments_safe e segs w = (hs, w')"
    by (cases "process_segments_safe e segs w")
  have "filter (\<lambda>s. strip (seg_text s) \<noteq> []) segs \<noteq> []"
    using assms by (simp add: filter_empty_conv)
  then have "length hs \<noteq> 0"
    using psf_length [of e "length segs" 0 segs "[]" w] r
    by (simp add: process_segments_safe_def)
  then obtain seg rest where "hs = seg # rest" by (cases hs) auto
  moreover have "files w' = files w \<and> cwd w' = cwd w \<and> dirs w' = dirs w"
    using process_segments_from_frame [of e "length segs" 0 segs "[]" w] r
    by (simp add: process_segments_safe_def)
  ultimately show ?thesis using r by blast
qed

lemma create_srt_file_safe_ok:
  assumes "\<forall>t. open_write_ok e t"
  shows "\<exists>p w'. create_srt_file_safe e hs u w = (Inr p, w')
        \<and> files w' = (files w)(p \<mapsto> srt_entries 1 hs)
        \<and> cwd w' = cwd w \<and> dirs w' = dirs w"
  using assms by (simp add: create_srt_file_safe_def Let_def)


lemma copyfile_ok:
  "files w a = Some c \<Longrightarrow> copyfile_outcome e (clock w) = CopyOk \<Longrightarrow>
   copyfile e a b w = (True, tick (w\<lparr>files := (files w)(b \<mapsto> c)\<rparr>))"
  by (simp add: copyfile_def)

lemma embed_run_ok:
  assumes run: "\<forall>t cmd. \<exists>c. run_ffmpeg e t cmd = (RunExit 0, Some c) \<and> 1000 < length c \<and> length c \<le> MAX_FILE_SIZE"
    and od: "od \<in> dirs w" and out: "path_join (cwd w) (basename out) = out"
  shows "\<exists>w' c. embed_run e od sv ss out fs cc w = (Inr out, w')
          \<and> files w' out = Some c \<and> 1000 < length c \<and> length c \<le> MAX_FILE_SIZE"
proof -
  define cmd where "cmd = ffmpeg_command (basename sv) (basename ss) (basename out) fs cc"
  obtain c where c: "run_ffmpeg e (clock w) cmd = (RunExit 0, Some c)" "1000 < length c"
      "length c \<le> MAX_FILE_SIZE"
    using run by blast
  define w1 where "w1 = tick (w\<lparr>commands := commands w @ [cmd], files := (files w)(out \<mapsto> c)\<rparr>)"
  have ch: "chdir od w1 = (True, w1\<lparr>cwd := od\<rparr>)"
    using od by (simp add: chdir_def w1_def)
  have ck: "embed_check od out 0 w1 = (Inr out, w1\<lparr>cwd := od\<rparr>)"
    using c(2) by (simp add: embed_check_def ch getsize_def) (simp add: w1_def)
  have "embed_run e od sv ss out fs cc w = (Inr out, w1\<lparr>cwd := od\<rparr>)"
    unfolding embed_run_def Let_def cmd_def [symmetric] c out
    by (simp add: w1_def [symmetric] ck)
  moreover have "files (w1\<lparr>cwd := od\<rparr>) out = Some c" by (simp add: w1_def)
  ultimately show ?thesis using c by blast
qed

lemma embed_subtitles_safe_ok:
  assumes cp: "\<forall>t. copyfile_outcome e t = CopyOk"
    and run: "\<forall>t cmd. \<exists>c. run_ffmpeg e t cmd = (RunExit 0, Some c) \<and> 1000 < length c \<and> length c \<le> MAX_FILE_SIZE"
    and v: "files w v \<noteq> None" and s: "files w srt \<noteq> None"
    and d: "cwd w \<in> dirs w" "tmp_dir e \<in> dirs w" and u: "CHR ''/'' \<notin> set u"
  shows "\<exists>out w' c. embed_subtitles_safe e v srt u fs fc w = (Inr out, w')
          \<and> files w' out = Some c \<and> 1000 < length c \<and> length c \<le> MAX_FILE_SIZE"
proof -
  define ts where "ts = time_at e (clock w)"
  define sv where "sv = path_join (tmp_dir e) (''v_'' @ u @ ''_'' @ digits ts @ ''.mp4'')"
  define ss where "ss = path_join (tmp_dir e) (''s_'' @ u @ ''_'' @ digits ts @ ''.srt'')"
  define out where "out = path_join (tmp_dir e) (''o_'' @ u @ ''_'' @ digits ts @ ''.mp4'')"
  define cc where "cc = (case COLOR_CODES fc of None \<Rightarrow> ''&H00FFFFFF&'' | Some c \<Rightarrow> c)"
  obtain c1 where c1: "files (tick w) v = Some c1" using v by auto
  define wa where "wa = tick ((tick w)\<lparr>files := (files (tick w))(sv \<mapsto> c1)\<rparr>)"
  have e1: "copyfile e v sv (tick w) = (True, wa)"
    using copyfile_ok [OF c1, of e sv] cp by (simp add: wa_def)
  have "files wa srt \<noteq> None" using s by (simp add: wa_def)
  then obtain c2 where c2: "files wa srt = Some c2" by blast
  define wb where "wb = tick (wa\<lparr>files := (files wa)(ss \<mapsto> c2)\<rparr>)"
  have e2: "copyfile e srt ss wa = (True, wb)"
    using copyfile_ok [OF c2, of e ss] cp by (simp add: wb_def)
  have fb: "cwd wb = cwd w" "dirs wb = dirs w" by (simp_all add: wb_def wa_def)
  have e3: "chdir (tmp_dir e) wb = (True, wb\<lparr>cwd := tmp_dir e\<rparr>)"
    using d fb by (simp add: chdir_def)
  have ns: "CHR ''/'' \<notin> set (''o_'' @ u @ ''_'' @ digits ts @ ''.mp4'')"
    using u digits_no_slash [of ts] by simp
  have po: "path_join (cwd (wb\<lparr>cwd := tmp_dir e\<rparr>)) (basename out) = out"
    using basename_path_join [OF ns, of "tmp_dir e"] by (simp add: out_def)
  have od: "cwd wb \<in> dirs (wb\<lparr>cwd := tmp_dir e\<rparr>)" using d fb by simp
  from embed_run_ok [OF run od po, of sv ss fs cc] obtain w' c where
    e4: "embed_run e (cwd wb) sv ss out fs cc (wb\<lparr>cwd := tmp_dir e\<rparr>) = (Inr out, w')"
    and f4: "files w' out = Some c" "1000 < length c" "length c \<le> MAX_FILE_SIZE"
    by blast
  have t: "embed_try e v srt sv ss out fs fc (tick w) = (Inr out, w')"
    unfolding embed_try_def by (simp add: e1 e2 e3 Let_def cc_def [symmetric] e4)
  have "embed_subtitles_safe e v srt u fs fc w = (Inr out, w')"
    unfolding embed_subtitles_safe_def Let_def ts_def [symmetric] sv_def [symmetric]
      ss_def [symmetric] out_def [symmetric]
    by (simp add: t)
  with f4 show ?thesis by blast
qed


lemma bot_call_status:
  "bot_ok e (clock w) \<Longrightarrow>
   \<exists>w'. bot_call e m w = (Inr (), w') \<and> files w' = files w \<and> cwd w' = cwd w
        \<and> dirs w' = dirs w \<and> outbox w' = outbox w @ [m]"
  by (simp add: bot_call_ok)

lemma job_completes:
  assumes bot: "\<forall>t. bot_ok e t" and lm: "\<forall>t. load_model_ok e t"
    and x: "\<forall>t. \<exists>c. ffmpeg_extract e t = (True, Some c) \<and> 1000 < length c"
    and tr: "\<forall>t. \<exists>segs. transcribe e t = Some segs \<and> (\<exists>s \<in> set segs. strip (seg_text s) \<noteq> [])"
    and ow: "\<forall>t. open_write_ok e t"
    and cp: "\<forall>t. copyfile_outcome e t = CopyOk"
    and run: "\<forall>t cmd. \<exists>c. run_ffmpeg e t cmd = (RunExit 0, Some c) \<and> 1000 < length c \<and> length c \<le> MAX_FILE_SIZE"
    and v: "files w v \<noteq> None" and d: "cwd w \<in> dirs w" "tmp_dir e \<in> dirs w"
    and u: "CHR ''/'' \<notin> set u"
  shows "fst (process_video_try e v u fs fc w) = Inr ()
       \<and> (\<exists>pre out. outbox (process_video_complete e v u fs fc w) = pre @ [MsgSending, MsgVideo out, MsgDone])"
proof -
  have b: "\<And>w. bot_ok e (clock w)" using bot by simp
  obtain w1 where e1: "bot_call e MsgLoadingModel w = (Inr (), w1)"
    and f1: "files w1 = files w" "cwd w1 = cwd w" "dirs w1 = dirs w"
    using bot_call_status [OF b, of MsgLoadingModel w] by blast
  have e2: "load_model e w1 = (Inr (), tick w1)" using lm by (simp add: load_model_def)
  obtain w3 where e3: "bot_call e MsgExtracting (tick w1) = (Inr (), w3)"
    and f3: "files w3 = files w1" "cwd w3 = cwd w1" "dirs w3 = dirs w1"
    using bot_call_status [OF b, of MsgExtracting "tick w1"] by auto
  have "files w3 v \<noteq> None" using v by (simp add: f3 f1)
  from extract_audio_safe_ok [OF x this, of u] obtain a w4 where
    e4: "extract_audio_safe e v u w3 = (Inr a, w4)"
    and f4: "files w4 v \<noteq> None" "cwd w4 = cwd w3" "dirs w4 = dirs w3"
    by blast
  obtain w5 where e5: "bot_call e MsgRecognising w4 = (Inr (), w5)"
    and f5: "files w5 = files w4" "cwd w5 = cwd w4" "dirs w5 = dirs w4"
    using bot_call_status [OF b, of MsgRecognising w4] by blast
  obtain segs where sg: "transcribe e (clock w5) = Some segs"
    and nb: "\<exists>s \<in> set segs. strip (seg_text s) \<noteq> []"
    using tr by blast
  from nb obtain s0 ss0 where sc: "segs = s0 # ss0" by (cases segs) auto
  from process_segments_safe_ok [OF nb, of e "tick w5"] obtain seg rest w6 where
    e6: "process_segments_safe e segs (tick w5) = (seg # rest, w6)"
    and f6: "files w6 = files w5" "cwd w6 = cwd w5" "dirs w6 = dirs w5"
    by auto
  obtain w7 where e7: "bot_call e MsgCreatingSubs w6 = (Inr (), w7)"
    and f7: "files w7 = files w6" "cwd w7 = cwd w6" "dirs w7 = dirs w6"
    using bot_call_status [OF b, of MsgCreatingSubs w6] by blast
  from create_srt_file_safe_ok [OF ow, of "seg # rest" u w7] obtain p w8 where
    e8: "create_srt_file_safe e (seg # rest) u w7 = (Inr p, w8)"
    and f8: "files w8 = (files w7)(p \<mapsto> srt_entries 1 (seg # rest))" "cwd w8 = cwd w7" "dirs w8 = dirs w7"
    by blast
  obtain w9 where e9: "bot_call e MsgEmbedding w8 = (Inr (), w9)"
    and f9: "files w9 = files w8" "cwd w9 = cwd w8" "dirs w9 = dirs w8"
    using bot_call_status [OF b, of MsgEmbedding w8] by blast
  have h: "files w9 v \<noteq> None" "files w9 p \<noteq> None" "cwd w9 \<in> dirs w9" "tmp_dir e \<in> dirs w9"
    using f4(1) d by (auto simp: f9 f8 f7 f6 f5 f4(2,3) f3 f1)
  from embed_subtitles_safe_ok [OF cp run h u, of fs fc] obtain out w10 c where
    e10: "embed_subtitles_safe e v p u fs fc w9 = (Inr out, w10)"
    and f10: "files w10 out = Some c" "1000 < length c" "length c \<le> MAX_FILE_SIZE"
    by blast
  obtain w11 where e11: "bot_call e MsgSending w10 = (Inr (), w11)"
    and f11: "files w11 = files w10" "outbox w11 = outbox w10 @ [MsgSending]"
    using bot_call_status [OF b, of MsgSending w10] by blast
  obtain w12 where e12: "bot_call e (MsgVideo out) w11 = (Inr (), w12)"
    and f12: "outbox w12 = outbox w11 @ [MsgVideo out]"
    using bot_call_status [OF b, of "MsgVideo out" w11] by blast
  obtain w13 where e13: "bot_call e MsgDone w12 = (Inr (), w13)"
    and f13: "outbox w13 = outbox w12 @ [MsgDone]"
    using bot_call_status [OF b, of MsgDone w12] by blast
  have g: "getsize w11 out = Some (length c)" by (simp add: getsize_def f11 f10)
  have t: "process_video_try e v u fs fc w = (Inr (), Some a, Some p, Some out, w13)"
    unfolding process_video_try_def
    using f10(3)
    by (simp add: e1 e2 e3 e4 e5 sg sc e6 [unfolded sc] e7 e8 e9 e10 e11 g e12 e13)
  have fin: "process_video_complete e v u fs fc w = cleanup_files e [Some a, Some p, Some out] w13"
    by (simp add: process_video_complete_def t del: cleanup_files.simps)
  have "outbox (process_video_complete e v u fs fc w) = outbox w10 @ [MsgSending, MsgVideo out, MsgDone]"
    unfolding fin by (simp add: cleanup_files_outbox f13 f12 f11 del: cleanup_files.simps)
  with t show ?thesis by auto
qed


lemma strip_strip: "strip (strip s) = strip s"
proof (cases "strip s = []")
  case True
  then show ?thesis by simp
next
  case False
  define u where "u = dropWhile is_space s"
  define r where "r = dropWhile is_space (rev u)"
  have t: "strip s = rev r" by (simp add: strip_def r_def u_def)
  with False have rn: "r \<noteq> []" by simp
  then have h: "\<not> is_space (hd r)" unfolding r_def by (rule hd_dropWhile)
  have un: "u \<noteq> []" using rn by (auto simp: r_def)
  then have hu: "\<not> is_space (hd u)" unfolding u_def by (rule hd_dropWhile)
  obtain pre where pre: "rev u = pre @ r"
    unfolding r_def by (metis takeWhile_dropWhile_id)
  have "last r = last (rev u)" using rn pre by simp
  also have "\<dots> = hd u" using un by (simp add: last_rev)
  finally have l: "\<not> is_space (last r)" using hu by simp
  have dw: "\<And>xs. xs \<noteq> [] \<Longrightarrow> \<not> is_space (hd xs) \<Longrightarrow> dropWhile is_space xs = xs"
    by (case_tac xs) auto
  have "hd (rev r) = last r" using rn by (simp add: hd_rev)
  with l have "\<not> is_space (hd (rev r))" by simp
  then have d1: "dropWhile is_space (rev r) = rev r" using rn by (intro dw) simp_all
  have d2: "dropWhile is_space r = r" using h rn by (intro dw)
  show ?thesis unfolding t by (simp add: strip_def d1 d2)
qed

lemma translate_attempts_step:
  assumes "tr_failed (translate e (clock w) (strip tx))" and "a < n"
  shows "translate_attempts e tx n a w =
         translate_attempts e tx n (Suc a)
           (if translate e (clock w) (strip tx) = TrRaises \<and> a + 1 < n
            then sleep 1 (tick (w\<lparr>requests := Suc (requests w)\<rparr>))
            else tick (w\<lparr>requests := Suc (requests w)\<rparr>))"
  using assms
  by (subst translate_attempts.simps) (auto simp: tr_failed_def Let_def split: tr_outcome.splits)

lemma translate_attempts_end: "translate_attempts e tx n n w = (tx, w)"
  by (subst translate_attempts.simps) simp

lemma translate_text_safe_three:
  assumes ctor: "translator_ctor e (clock w)" and fail: "\<forall>t s. tr_failed (translate e t s)"
    and tx: "strip tx \<noteq> []"
  shows "translate_text_safe e tx 3 w =
      (Inr tx,
       w\<lparr>clock := clock w + 4, requests := requests w + 3,
         slept := slept w @ (if translate e (clock w + 1) (strip tx) = TrRaises then [1] else [])
                    @ (if translate e (clock w + 2) (strip tx) = TrRaises then [1] else [])\<rparr>)"
proof -
  have f: "\<And>w. tr_failed (translate e (clock w) (strip tx))" using fail by simp
  have n: "tx \<noteq> []" using tx by auto
  have "translate_attempts e tx 3 0 (tick w) =
      (tx,
       w\<lparr>clock := clock w + 4, requests := requests w + 3,
         slept := slept w @ (if translate e (clock w + 1) (strip tx) = TrRaises then [1] else [])
                    @ (if translate e (clock w + 2) (strip tx) = TrRaises then [1] else [])\<rparr>)"
    apply (subst translate_attempts_step [OF f]) apply simp
    apply (subst translate_attempts_step [OF f]) apply simp
    apply (subst translate_attempts_step [OF f]) apply simp
    apply (simp add: numeral_3_eq_3 translate_attempts_end tick_def sleep_def)
    done
  then show ?thesis using ctor n tx by (simp add: translate_text_safe_def)
qed

lemma translate_text_safe_blank:
  "strip tx = [] \<Longrightarrow> translate_text_safe e tx n w = (Inr tx, w)"
  by (simp add: translate_text_safe_def)

lemma translate_text_safe_ctor_fails:
  "strip tx \<noteq> [] \<Longrightarrow> \<not> translator_ctor e (clock w) \<Longrightarrow>
   translate_text_safe e tx n w = (Inl ExternalError, tick w)"
  by (auto simp: translate_text_safe_def)

lemma psf_texts_ctor_fails:
  assumes "\<forall>t. \<not> translator_ctor e t"
  shows "map seg_text (fst (process_segments_from e t i segs acc w)) =
     map seg_text acc @ map seg_text (filter (\<lambda>s. strip (seg_text s) \<noteq> []) segs)"
proof (induction segs arbitrary: i acc w)
  case Nil
  then show ?case by simp
next
  case (Cons seg rest)
  show ?case
  proof (cases "strip (seg_text seg) = []")
    case True
    then show ?thesis using Cons by (simp add: Let_def)
  next
    case False
    then have "strip (strip (seg_text seg)) \<noteq> []" by (simp add: strip_strip)
    from translate_text_safe_ctor_fails [OF this] assms
    have "\<And>w. translate_text_safe e (strip (seg_text seg)) 3 w = (Inl ExternalError, tick w)"
      by simp
    then show ?thesis using False Cons by (simp add: Let_def)
  qed
qed


text \<open>
  Claim C7, as amended. \<open>translate_text_safe\<close> makes at most three requests, and
  none for a blank text, which it returns as it is. When the translator can be
  constructed and every request fails (it raises, or its result is empty), the call
  returns the text it was given after exactly three requests; it sleeps one second after
  the first and after the second request when that request raised, and never after an
  empty result or after the third request. The translation pass then emits, for every
  segment with a non-blank text, that text stripped and passed through
  \<open>add_space_after_punctuation\<close>. When the translator cannot be constructed,
  \<open>translate_text_safe\<close> raises, and the pass emits every segment with a non-blank text
  with its text unchanged. Whatever the translator does, the job still completes
  successfully when every other stage succeeds: if the status updates, the loading of
  the model, the extraction of the audio (more than 1000 bytes), the recogniser (some
  segment with a non-blank text), the writing of the subtitle file, the two copies and
  the transcoder (exit status 0, an output of more than 1000 bytes and within the
  sending limit) succeed, the video exists, the current and the work directory exist and
  the user id contains no slash, then the body of the job ends without an exception and
  the last messages sent are "sending", the video and "done".
\<close>

theorem translation_failure_recovered:
  "requests (snd (translate_text_safe e tx 3 w)) \<le> requests w + 3
   \<and> (strip tx = [] \<longrightarrow> translate_text_safe e tx 3 w = (Inr tx, w))
   \<and> ((\<forall>t. translator_ctor e t) \<and> (\<forall>t s. tr_failed (translate e t s)) \<longrightarrow>
         fst (translate_text_safe e tx 3 w) = Inr tx
       \<and> (strip tx \<noteq> [] \<longrightarrow>
            requests (snd (translate_text_safe e tx 3 w)) = requests w + 3
          \<and> slept (snd (translate_text_safe e tx 3 w)) =
              slept w @ (if translate e (clock w + 1) (strip tx) = TrRaises then [1] else [])
                      @ (if translate e (clock w + 2) (strip tx) = TrRaises then [1] else []))
       \<and> map seg_text (fst (process_segments_safe e segments w)) =
           map (\<lambda>s. add_space_after_punctuation (strip (seg_text s)))
             (filter (\<lambda>s. strip (seg_text s) \<noteq> []) segments))
   \<and> ((\<forall>t. \<not> translator_ctor e t) \<longrightarrow>
         (strip tx \<noteq> [] \<longrightarrow> translate_text_safe e tx 3 w = (Inl ExternalError, tick w))
       \<and> map seg_text (fst (process_segments_safe e segments w)) =
           map seg_text (filter (\<lambda>s. strip (seg_text s) \<noteq> []) segments))
   \<and> ((\<forall>t. bot_ok e t) \<and> (\<forall>t. load_model_ok e t)
       \<and> (\<forall>t. \<exists>c. ffmpeg_extract e t = (True, Some c) \<and> 1000 < length c)
       \<and> (\<forall>t. \<exists>segs. transcribe e t = Some segs \<and> (\<exists>s \<in> set segs. strip (seg_text s) \<noteq> []))
       \<and> (\<forall>t. open_write_ok e t) \<and> (\<forall>t. copyfile_outcome e t = CopyOk)
       \<and> (\<forall>t cmd. \<exists>c. run_ffmpeg e t cmd = (RunExit 0, Some c) \<and> 1000 < length c
                      \<and> length c \<le> MAX_FILE_SIZE)
       \<and> files w video_path \<noteq> None \<and> cwd w \<in> dirs w \<and> tmp_dir e \<in> dirs w
       \<and> CHR ''/'' \<notin> set user_id \<longrightarrow>
         fst (process_video_try e video_path user_id font_size font_color w) = Inr ()
       \<and> (\<exists>pre out. outbox (process_video_complete e video_path user_id font_size font_color w)
                      = pre @ [MsgSending, MsgVideo out, MsgDone]))"
proof (intro conjI impI)
  show "requests (snd (translate_text_safe e tx 3 w)) \<le> requests w + 3"
    by (rule translate_text_safe_requests)
next
  assume "strip tx = []"
  then show "translate_text_safe e tx 3 w = (Inr tx, w)" by (rule translate_text_safe_blank)
next
  assume a: "(\<forall>t. translator_ctor e t) \<and> (\<forall>t s. tr_failed (translate e t s))"
  then have c: "\<forall>t. translator_ctor e t" and f: "\<forall>t s. tr_failed (translate e t s)" by simp_all
  show "fst (translate_text_safe e tx 3 w) = Inr tx"
    by (rule translate_text_safe_failed [OF c f])
  show "map seg_text (fst (process_segments_safe e segments w)) =
           map (\<lambda>s. add_space_after_punctuation (strip (seg_text s)))
             (filter (\<lambda>s. strip (seg_text s) \<noteq> []) segments)"
    by (simp add: process_segments_safe_def psf_texts_failed [OF c f])
  assume t: "strip tx \<noteq> []"
  have c': "translator_ctor e (clock w)" using c by simp
  show "requests (snd (translate_text_safe e tx 3 w)) = requests w + 3"
    by (simp add: translate_text_safe_three [OF c' f t])
  show "slept (snd (translate_text_safe e tx 3 w)) =
              slept w @ (if translate e (clock w + 1) (strip tx) = TrRaises then [1] else [])
                      @ (if translate e (clock w + 2) (strip tx) = TrRaises then [1] else [])"
    by (simp add: translate_text_safe_three [OF c' f t])
next
  assume a: "\<forall>t. \<not> translator_ctor e t"
  show "map seg_text (fst (process_segments_safe e segments w)) =
           map seg_text (filter (\<lambda>s. strip (seg_text s) \<noteq> []) segments)"
    by (simp add: process_segments_safe_def psf_texts_ctor_fails [OF a])
  assume "strip tx \<noteq> []"
  then show "translate_text_safe e tx 3 w = (Inl ExternalError, tick w)"
    using a by (simp add: translate_text_safe_ctor_fails)
next
  assume a: "(\<forall>t. bot_ok e t) \<and> (\<forall>t. load_model_ok e t)
       \<and> (\<forall>t. \<exists>c. ffmpeg_extract e t = (True, Some c) \<and> 1000 < length c)
       \<and> (\<forall>t. \<exists>segs. transcribe e t = Some segs \<and> (\<exists>s \<in> set segs. strip (seg_text s) \<noteq> []))
       \<and> (\<forall>t. open_write_ok e t) \<and> (\<forall>t. copyfile_outcome e t = CopyOk)
       \<and> (\<forall>t cmd. \<exists>c. run_ffmpeg e t cmd = (RunExit 0, Some c) \<and> 1000 < length c
                      \<and> length c \<le> MAX_FILE_SIZE)
       \<and> files w video_path \<noteq> None \<and> cwd w \<in> dirs w \<and> tmp_dir e \<in> dirs w
       \<and> CHR ''/'' \<notin> set user_id"
  then have j: "fst (process_video_try e video_path user_id font_size font_color w) = Inr ()
       \<and> (\<exists>pre out. outbox (process_video_complete e video_path user_id font_size font_color w)
                      = pre @ [MsgSending, MsgVideo out, MsgDone])"
    by (intro job_completes) blast+
  from j show "fst (process_video_try e video_path user_id font_size font_color w) = Inr ()" ..
  from j show "\<exists>pre out. outbox (process_video_complete e video_path user_id font_size font_color w)
                      = pre @ [MsgSending, MsgVideo out, MsgDone]" ..
qed


theorem translation_failure_recovered_witness:
  "(\<forall>t. translator_ctor offline_translator_env t)
   \<and> (\<forall>t s. tr_failed (translate offline_translator_env t s))
   \<and> strip ''How are you?'' \<noteq> []
   \<and> fst (translate_text_safe offline_translator_env ''How are you?'' 3 fresh_world) = Inr ''How are you?''
   \<and> requests (snd (translate_text_safe offline_translator_env ''How are you?'' 3 fresh_world)) = 3
   \<and> slept (snd (translate_text_safe offline_translator_env ''How are you?'' 3 fresh_world)) = [1, 1]
   \<and> map seg_text (fst (process_segments_safe offline_translator_env two_segments fresh_world))
       = [''Hello there'', ''How are you? '']
   \<and> (\<forall>t. bot_ok offline_translator_env t) \<and> (\<forall>t. load_model_ok offline_translator_env t)
   \<and> (\<forall>t. \<exists>c. ffmpeg_extract offline_translator_env t = (True, Some c) \<and> 1000 < length c)
   \<and> (\<forall>t. \<exists>segs. transcribe offline_translator_env t = Some segs
            \<and> (\<exists>s \<in> set segs. strip (seg_text s) \<noteq> []))
   \<and> (\<forall>t. open_write_ok offline_translator_env t)
   \<and> (\<forall>t. copyfile_outcome offline_translator_env t = CopyOk)
   \<and> (\<forall>t cmd. \<exists>c. run_ffmpeg offline_translator_env t cmd = (RunExit 0, Some c) \<and> 1000 < length c
                  \<and> length c \<le> MAX_FILE_SIZE)
   \<and> files fresh_world input_video \<noteq> None \<and> cwd fresh_world \<in> dirs fresh_world
   \<and> tmp_dir offline_translator_env \<in> dirs fresh_world \<and> CHR ''/'' \<notin> set ''7''
   \<and> fst (process_video_try offline_translator_env input_video ''7'' 24 ''white'' fresh_world) = Inr ()
   \<and> last (outbox (process_video_complete offline_translator_env input_video ''7'' 24 ''white'' fresh_world))
       = MsgDone
   \<and> (\<forall>t. \<not> translator_ctor (studio_env\<lparr>translator_ctor := \<lambda>_. False\<rparr>) t)
   \<and> map seg_text (fst (process_segments_safe (studio_env\<lparr>translator_ctor := \<lambda>_. False\<rparr>)
          two_segments fresh_world))
       = [''Hello there'', ''How are you?'']"
proof -
  have h1: "\<forall>t. translator_ctor offline_translator_env t" by (simp add: offline_ctor)
  have h2: "\<forall>t s. tr_failed (translate offline_translator_env t s)"
    by (simp add: offline_translate tr_failed_def)
  have h4: "strip ''How are you?'' \<noteq> []" by (simp add: strip_examples)
  have j: "(\<forall>t. bot_ok offline_translator_env t)" "(\<forall>t. load_model_ok offline_translator_env t)"
    "(\<forall>t. \<exists>c. ffmpeg_extract offline_translator_env t = (True, Some c) \<and> 1000 < length c)"
    "(\<forall>t. \<exists>segs. transcribe offline_translator_env t = Some segs
            \<and> (\<exists>s \<in> set segs. strip (seg_text s) \<noteq> []))"
    "(\<forall>t. open_write_ok offline_translator_env t)"
    "(\<forall>t. copyfile_outcome offline_translator_env t = CopyOk)"
    "(\<forall>t cmd. \<exists>c. run_ffmpeg offline_translator_env t cmd = (RunExit 0, Some c) \<and> 1000 < length c
                  \<and> length c \<le> MAX_FILE_SIZE)"
    "files fresh_world input_video \<noteq> None" "cwd fresh_world \<in> dirs fresh_world"
    "tmp_dir offline_translator_env \<in> dirs fresh_world" "CHR ''/'' \<notin> set ''7''"
    by (simp_all add: offline_translator_env_def studio_env_def two_segments_def strip_examples
        MAX_FILE_SIZE_def fresh_world_def)
  have h5: "\<forall>t. \<not> translator_ctor (studio_env\<lparr>translator_ctor := \<lambda>_. False\<rparr>) t" by simp
  note t = translation_failure_recovered
  have a: "fst (translate_text_safe offline_translator_env ''How are you?'' 3 fresh_world) = Inr ''How are you?''
     \<and> requests (snd (translate_text_safe offline_translator_env ''How are you?'' 3 fresh_world)) = 3
     \<and> slept (snd (translate_text_safe offline_translator_env ''How are you?'' 3 fresh_world)) = [1, 1]
     \<and> map seg_text (fst (process_segments_safe offline_translator_env two_segments fresh_world))
         = [''Hello there'', ''How are you? '']"
    using t [of offline_translator_env "''How are you?''" fresh_world two_segments input_video "''7''" 24 "''white''"]
      h1 h2 h4
    by (simp add: offline_translate fresh_world_def two_segments_def strip_examples add_space_examples)
  have b: "fst (process_video_try offline_translator_env input_video ''7'' 24 ''white'' fresh_world) = Inr ()
     \<and> last (outbox (process_video_complete offline_translator_env input_video ''7'' 24 ''white'' fresh_world))
         = MsgDone"
    using t [of offline_translator_env "''How are you?''" fresh_world two_segments input_video "''7''" 24 "''white''"]
      j
    by auto
  have c: "map seg_text (fst (process_segments_safe (studio_env\<lparr>translator_ctor := \<lambda>_. False\<rparr>)
          two_segments fresh_world)) = [''Hello there'', ''How are you?'']"
    using t [of "studio_env\<lparr>translator_ctor := \<lambda>_. False\<rparr>" "''How are you?''" fresh_world two_segments
          input_video "''7''" 24 "''white''"] h5
    by (simp add: two_segments_def strip_examples)
  from a b c h1 h2 h4 j h5 show ?thesis by blast
qed

end
